theory Spec2Isabelle
  imports Main "HOL-Library.Log_Nat"
begin

section \<open>Python floats\<close>

text \<open>
  The script \<^verbatim>\<open>scripts/generatedata.py\<close> computes prices and promotion fees with Python
  floats, which are IEEE 754 binary64 numbers. A finite float is a rational, and every
  arithmetic operation returns the exact result rounded to the nearest float, ties to the
  even mantissa. \<open>fl\<close> is that rounding for the normal range (53 bits of mantissa); every
  number the script computes is zero or lies between \<open>2\<^sup>-\<^sup>5\<^sup>4\<close> and \<open>2\<^sup>2\<^sup>4\<close>, far from
  overflow and from the subnormal range. \<open>expo x\<close> is the binary exponent of a positive
  \<open>x\<close>, \<open>rne\<close> rounds to the nearest integer, ties to even. A decimal literal such as
  \<^verbatim>\<open>0.7\<close> denotes \<open>fl (7 / 10)\<close>, a product \<^verbatim>\<open>a * b\<close> of floats is \<open>fl (a * b)\<close>, and
  \<^verbatim>\<open>round(x, 2)\<close> on a float rounds its exact value to two decimals, ties to even, and
  returns the float nearest to that decimal; on an \<^verbatim>\<open>int\<close> it returns the \<^verbatim>\<open>int\<close>.
\<close>


definition rne :: "rat \<Rightarrow> int" where
  "rne y = (let f = \<lfloor>y\<rfloor>; d = y - of_int f
            in if d < 1 / 2 then f else if 1 / 2 < d then f + 1
               else if even f then f else f + 1)"

definition expo :: "rat \<Rightarrow> int" where
  "expo x = (if 1 \<le> x then bitlen \<lfloor>x\<rfloor> - 1 else - bitlen (\<lceil>1 / x\<rceil> - 1))"

definition fl :: "rat \<Rightarrow> rat" where
  "fl x = (if x = 0 then 0
           else let u = 2 powi (expo \<bar>x\<bar> - 52)
                in sgn x * of_int (rne (\<bar>x\<bar> / u)) * u)"

definition py_round2 :: "rat \<Rightarrow> rat" where
  "py_round2 x = fl (of_int (rne (x * 100)) / 100)"

datatype number = PyInt int | PyFloat rat

fun round2 :: "number \<Rightarrow> number" where
  "round2 (PyInt i) = PyInt i"
| "round2 (PyFloat x) = PyFloat (py_round2 x)"

fun num_val :: "number \<Rightarrow> rat" where
  "num_val (PyInt i) = of_int i"
| "num_val (PyFloat x) = x"


section \<open>Exceptions, the interpreter state and the sequencing of statements\<close>

text \<open>
  Every \<^verbatim>\<open>raise\<close> the script can meet is a value of \<open>error\<close>. The state \<open>world\<close> holds
  what the script reads and mutates: the state of Python's global \<^verbatim>\<open>random\<close> module
  (\<open>py\<close>), the state of the generator owned by the \<^verbatim>\<open>Faker()\<close> object (\<open>fk\<close>, a
  separate \<^verbatim>\<open>random.Random\<close> instance that \<^verbatim>\<open>random.seed\<close> does not touch), the system
  clock (\<open>clk\<close>), the working directory (\<open>files\<close>), the relational store (\<open>store\<close>) and
  the ordered record of what the process did (\<open>log\<close>: lines printed, files written, store
  appends attempted). A source of values is a tape with a read position; each library call
  that needs randomness, and each \<^verbatim>\<open>datetime.now()\<close>, consumes one cell.
\<close>

datatype error = ValueError | KeyError | IndexError | OSError | DBError

record 'v src =
  feed :: "nat \<Rightarrow> 'v"
  pos :: nat

datatype cell = CNum number | CStr string | CDate int

record frame =
  columns :: "string list"
  rows :: "cell list list"

datatype event =
    Print string
  | PrintCount string int
  | PrintError error
  | WriteCsv string
  | ToSql string

record world =
  py :: "int src"
  fk :: "int src"
  clk :: "int src"
  files :: "string \<rightharpoonup> frame"
  store :: "string \<rightharpoonup> cell list list"
  log :: "event list"

type_synonym 'a prog = "world \<Rightarrow> (error + 'a) \<times> world"

definition ret :: "'a \<Rightarrow> 'a prog" where
  "ret x w = (Inr x, w)"

definition bnd :: "'a prog \<Rightarrow> ('a \<Rightarrow> 'b prog) \<Rightarrow> 'b prog" where
  "bnd m f w = (case m w of (Inl e, w') \<Rightarrow> (Inl e, w') | (Inr x, w') \<Rightarrow> f x w')"

definition seq :: "unit prog \<Rightarrow> 'b prog \<Rightarrow> 'b prog" where
  "seq m k = bnd m (\<lambda>_. k)"

definition try_except :: "unit prog \<Rightarrow> (error \<Rightarrow> unit prog) \<Rightarrow> unit prog" where
  "try_except body handler w =
     (case body w of (Inl e, w') \<Rightarrow> handler e w' | (Inr x, w') \<Rightarrow> (Inr x, w'))"

definition draw :: "'v src \<Rightarrow> 'v \<times> 'v src" where
  "draw g = (feed g (pos g), g\<lparr>pos := pos g + 1\<rparr>)"

definition call_py :: "(int src \<Rightarrow> error + ('a \<times> int src)) \<Rightarrow> 'a prog" where
  "call_py f w = (case f (py w) of Inl e \<Rightarrow> (Inl e, w) | Inr (x, g) \<Rightarrow> (Inr x, w\<lparr>py := g\<rparr>))"

definition call_fk :: "(int src \<Rightarrow> error + ('a \<times> int src)) \<Rightarrow> 'a prog" where
  "call_fk f w = (case f (fk w) of Inl e \<Rightarrow> (Inl e, w) | Inr (x, g) \<Rightarrow> (Inr x, w\<lparr>fk := g\<rparr>))"

definition print :: "string \<Rightarrow> unit prog" where
  "print s w = (Inr (), w\<lparr>log := log w @ [Print s]\<rparr>)"

definition print_count :: "string \<Rightarrow> int \<Rightarrow> unit prog" where
  "print_count s n w = (Inr (), w\<lparr>log := log w @ [PrintCount s n]\<rparr>)"

definition print_error :: "error \<Rightarrow> unit prog" where
  "print_error e w = (Inr (), w\<lparr>log := log w @ [PrintError e]\<rparr>)"

fun prints :: "string list \<Rightarrow> unit prog" where
  "prints [] = ret ()"
| "prints (s # ss) = seq (print s) (prints ss)"

fun for_loop :: "(int \<Rightarrow> 'a prog) \<Rightarrow> int list \<Rightarrow> 'a list \<Rightarrow> 'a list prog" where
  "for_loop body [] acc w = (Inr acc, w)"
| "for_loop body (i # is) acc w =
     (case body i w of
        (Inl e, w') \<Rightarrow> (Inl e, w')
      | (Inr x, w') \<Rightarrow> for_loop body is (acc @ [x]) w')"


section \<open>The library calls\<close>

text \<open>
  The standard library, Faker and pandas are not part of the repository. Each call is
  modelled by what its documentation promises, on one cell of the tape:
  \<^verbatim>\<open>random.random()\<close> is a multiple of \<open>2\<^sup>-\<^sup>5\<^sup>3\<close> in \<open>[0, 1)\<close>;
  \<^verbatim>\<open>random.uniform(a, b)\<close> is \<^verbatim>\<open>a + (b - a) * random()\<close> in float arithmetic;
  \<^verbatim>\<open>random.randint(a, b)\<close> is an integer of \<open>[a, b]\<close> and raises on an empty range;
  \<^verbatim>\<open>random.choice(seq)\<close> is an element of \<open>seq\<close>;
  \<^verbatim>\<open>random.choices(population, weights)\<close> accumulates the weights, scales one
  \<^verbatim>\<open>random()\<close> by their total and bisects among the first \<open>n - 1\<close> sums;
  \<^verbatim>\<open>fake.date_between(start_date, end_date)\<close> takes the date part of both arguments and
  returns a date between them (an inverted range is treated as a failure).
  Every value of the documented range is reached by some tape, so a statement about every
  tape is a statement about every outcome of the library.
\<close>

type_synonym datetime = int
type_synonym date = int

definition date_of :: "datetime \<Rightarrow> date" where
  "date_of t = t div 86400"

definition timedelta :: "int \<Rightarrow> int" where
  "timedelta days = days * 86400"

definition to_datetime :: "date \<Rightarrow> datetime" where
  "to_datetime d = d * 86400"

definition now :: "datetime prog" where
  "now w = (let (t, c) = draw (clk w) in (Inr t, w\<lparr>clk := c\<rparr>))"

definition random_py :: "int src \<Rightarrow> rat \<times> int src" where
  "random_py g = (let (k, g') = draw g in (of_int (k mod 2 ^ 53) / 2 ^ 53, g'))"

definition uniform :: "rat \<Rightarrow> rat \<Rightarrow> int src \<Rightarrow> error + (rat \<times> int src)" where
  "uniform a b g = (let (r, g') = random_py g in Inr (fl (a + fl (fl (b - a) * r)), g'))"

definition randint :: "int \<Rightarrow> int \<Rightarrow> int src \<Rightarrow> error + (int \<times> int src)" where
  "randint a b g =
     (if b < a then Inl ValueError
      else let (k, g') = draw g in Inr (a + k mod (b - a + 1), g'))"

definition choice :: "'a list \<Rightarrow> int src \<Rightarrow> error + ('a \<times> int src)" where
  "choice xs g =
     (if xs = [] then Inl IndexError
      else let (k, g') = draw g in Inr (xs ! nat (k mod int (length xs)), g'))"

fun accumulate :: "int \<Rightarrow> int list \<Rightarrow> int list" where
  "accumulate s [] = []"
| "accumulate s (x # xs) = (s + x) # accumulate (s + x) xs"

definition bisect :: "int list \<Rightarrow> rat \<Rightarrow> nat \<Rightarrow> nat" where
  "bisect cum x hi = length (takeWhile (\<lambda>c. of_int c \<le> x) (take hi cum))"

definition choices :: "'a list \<Rightarrow> int list \<Rightarrow> int src \<Rightarrow> error + ('a \<times> int src)" where
  "choices population weights g =
     (let n = length population; cum_weights = accumulate 0 weights
      in if length cum_weights \<noteq> n then Inl ValueError
         else if cum_weights = [] then Inl IndexError
         else let total = of_int (last cum_weights)
              in if total \<le> 0 then Inl ValueError
                 else let (r, g') = random_py g
                      in Inr (population ! bisect cum_weights (fl (r * total)) (n - 1), g'))"

definition date_between :: "datetime \<Rightarrow> datetime \<Rightarrow> int src \<Rightarrow> error + (date \<times> int src)" where
  "date_between start_date end_date g =
     (let s = date_of start_date; e = date_of end_date
      in if e < s then Inl ValueError
         else let (k, g') = draw g in Inr (s + k mod (e - s + 1), g'))"

definition lookup :: "('k \<times> 'v) list \<Rightarrow> 'k \<Rightarrow> 'v prog" where
  "lookup d k w = (case map_of d k of None \<Rightarrow> (Inl KeyError, w) | Some v \<Rightarrow> (Inr v, w))"

definition first_value :: "'a list \<Rightarrow> 'a prog" where
  "first_value xs w = (case xs of [] \<Rightarrow> (Inl IndexError, w) | x # _ \<Rightarrow> (Inr x, w))"

definition seed :: "(int \<Rightarrow> nat \<Rightarrow> int) \<Rightarrow> int \<Rightarrow> unit prog" where
  "seed mt s w = (Inr (), w\<lparr>py := \<lparr>feed = mt s, pos = 0\<rparr>\<rparr>)"


section \<open>Configuration and the four tables\<close>

record config =
  NUM_USERS :: int
  NUM_LISTINGS :: int
  NUM_LEADS :: int
  NUM_TRANSACTIONS :: int

definition default_config :: config where
  "default_config =
     \<lparr>NUM_USERS = 5000, NUM_LISTINGS = 8000, NUM_LEADS = 15000, NUM_TRANSACTIONS = 2000\<rparr>"

definition EMIRATES :: "string list" where
  "EMIRATES = [''Dubai'', ''Abu Dhabi'', ''Sharjah'', ''Ajman'', ''Ras Al Khaimah'',
               ''Fujairah'', ''Umm Al Quwain'']"

definition CATEGORIES :: "string list" where
  "CATEGORIES = [''Apartments'', ''Villas'', ''Townhouses'', ''Penthouses'', ''Commercial'',
                 ''Land'']"

definition USER_TYPES :: "string list" where
  "USER_TYPES = [''buyer'', ''seller'', ''agent'']"

definition base_price_table :: "(string \<times> int) list" where
  "base_price_table =
     [(''Apartments'', 800000), (''Villas'', 2500000), (''Townhouses'', 1800000),
      (''Penthouses'', 5000000), (''Commercial'', 1500000), (''Land'', 1000000)]"

definition emirate_multiplier_table :: "(string \<times> rat) list" where
  "emirate_multiplier_table =
     [(''Dubai'', fl (13 / 10)), (''Abu Dhabi'', fl (12 / 10)), (''Sharjah'', fl (8 / 10)),
      (''Ajman'', fl (6 / 10)), (''Ras Al Khaimah'', fl (7 / 10)), (''Fujairah'', fl (6 / 10)),
      (''Umm Al Quwain'', fl (5 / 10))]"

text \<open>
  One record per dictionary appended by a loop. Field names are the dictionary keys; a key
  that several tables share takes the table's initial in front (\<open>l_user_id\<close> is the
  \<^verbatim>\<open>'user_id'\<close> of a listing, \<open>ld_listing_id\<close> the \<^verbatim>\<open>'listing_id'\<close> of a lead). The
  functions \<open>user_dict\<close> ... \<open>transaction_dict\<close> give the dictionary itself, keys as in the
  source and in the source's order.
\<close>

record user =
  user_id :: int
  signup_date :: date
  emirate :: string
  user_type :: string

record listing =
  listing_id :: int
  l_user_id :: int
  category :: string
  l_emirate :: string
  price :: rat
  created_date :: date
  status :: string

record lead =
  lead_id :: int
  ld_listing_id :: int
  ld_user_id :: int
  lead_date :: date

record transaction =
  transaction_id :: int
  t_user_id :: int
  amount :: number
  transaction_date :: date
  transaction_type :: string

record tables =
  users_df :: "user list"
  listings_df :: "listing list"
  leads_df :: "lead list"
  transactions_df :: "transaction list"

definition user_dict :: "user \<Rightarrow> (string \<times> cell) list" where
  "user_dict u =
     [(''user_id'', CNum (PyInt (user_id u))), (''signup_date'', CDate (signup_date u)),
      (''emirate'', CStr (emirate u)), (''user_type'', CStr (user_type u))]"

definition listing_dict :: "listing \<Rightarrow> (string \<times> cell) list" where
  "listing_dict l =
     [(''listing_id'', CNum (PyInt (listing_id l))), (''user_id'', CNum (PyInt (l_user_id l))),
      (''category'', CStr (category l)), (''emirate'', CStr (l_emirate l)),
      (''price'', CNum (PyFloat (price l))), (''created_date'', CDate (created_date l)),
      (''status'', CStr (status l))]"

definition lead_dict :: "lead \<Rightarrow> (string \<times> cell) list" where
  "lead_dict d =
     [(''lead_id'', CNum (PyInt (lead_id d))), (''listing_id'', CNum (PyInt (ld_listing_id d))),
      (''user_id'', CNum (PyInt (ld_user_id d))), (''lead_date'', CDate (lead_date d))]"

definition transaction_dict :: "transaction \<Rightarrow> (string \<times> cell) list" where
  "transaction_dict t =
     [(''transaction_id'', CNum (PyInt (transaction_id t))),
      (''user_id'', CNum (PyInt (t_user_id t))), (''amount'', CNum (amount t)),
      (''transaction_date'', CDate (transaction_date t)),
      (''transaction_type'', CStr (transaction_type t))]"

definition DataFrame :: "(string \<times> cell) list list \<Rightarrow> frame" where
  "DataFrame data =
     \<lparr>columns = (case data of [] \<Rightarrow> [] | d # _ \<Rightarrow> map fst d), rows = map (map snd) data\<rparr>"


section \<open>The four generation loops\<close>

definition gen_user :: "datetime \<Rightarrow> datetime \<Rightarrow> int \<Rightarrow> user prog" where
  "gen_user START_DATE END_DATE i =
     bnd (call_fk (date_between START_DATE END_DATE)) (\<lambda>signup.
     bnd (call_py (choices EMIRATES [40, 25, 15, 5, 5, 5, 5])) (\<lambda>em.
     bnd (call_py (choices USER_TYPES [50, 30, 20])) (\<lambda>ut.
     ret \<lparr>user_id = i, signup_date = signup, emirate = em, user_type = ut\<rparr>)))"

definition gen_listing :: "config \<Rightarrow> datetime \<Rightarrow> datetime \<Rightarrow> int \<Rightarrow> listing prog" where
  "gen_listing cfg START_DATE END_DATE i =
     bnd (call_py (randint 1 (NUM_USERS cfg))) (\<lambda>uid.
     bnd (call_py (choices CATEGORIES [35, 25, 15, 10, 10, 5])) (\<lambda>cat.
     bnd (call_py (choices EMIRATES [40, 25, 15, 5, 5, 5, 5])) (\<lambda>em.
     bnd (lookup base_price_table cat) (\<lambda>base_price.
     bnd (lookup emirate_multiplier_table em) (\<lambda>emirate_multiplier.
     bnd (call_py (uniform (fl (7 / 10)) (3 / 2))) (\<lambda>u.
     bnd (call_fk (date_between START_DATE END_DATE)) (\<lambda>created.
     bnd (call_py (choices [''active'', ''sold'', ''expired''] [60, 25, 15])) (\<lambda>st.
     ret \<lparr>listing_id = i, l_user_id = uid, category = cat, l_emirate = em,
          price = py_round2 (fl (fl (of_int base_price * emirate_multiplier) * u)),
          created_date = created, status = st\<rparr>))))))))"

definition gen_lead :: "config \<Rightarrow> listing list \<Rightarrow> datetime \<Rightarrow> int \<Rightarrow> lead prog" where
  "gen_lead cfg listings END_DATE i =
     bnd (call_py (randint 1 (NUM_LISTINGS cfg))) (\<lambda>lid.
     bnd (call_py (randint 1 (NUM_USERS cfg))) (\<lambda>uid.
     bnd (first_value (map created_date (filter (\<lambda>l. listing_id l = lid) listings)))
       (\<lambda>listing_created.
     bnd (call_fk (date_between (to_datetime listing_created) END_DATE)) (\<lambda>ld.
     ret \<lparr>lead_id = i, ld_listing_id = lid, ld_user_id = uid, lead_date = ld\<rparr>))))"

definition gen_amount :: "string \<Rightarrow> number prog" where
  "gen_amount ttype =
     (if ttype = ''subscription''
      then bnd (call_py (choice [500, 1000, 2000, 5000])) (\<lambda>a. ret (PyInt a))
      else bnd (call_py (uniform 100 500)) (\<lambda>a. ret (PyFloat a)))"

definition gen_transaction :: "config \<Rightarrow> datetime \<Rightarrow> datetime \<Rightarrow> int \<Rightarrow> transaction prog" where
  "gen_transaction cfg START_DATE END_DATE i =
     bnd (call_py (randint 1 (NUM_USERS cfg))) (\<lambda>uid.
     bnd (call_py (choices [''subscription'', ''featured_listing''] [60, 40])) (\<lambda>ttype.
     bnd (gen_amount ttype) (\<lambda>amt.
     bnd (call_fk (date_between START_DATE END_DATE)) (\<lambda>tdate.
     ret \<lparr>transaction_id = i, t_user_id = uid, amount = round2 amt,
          transaction_date = tdate, transaction_type = ttype\<rparr>))))"

definition generate :: "config \<Rightarrow> (tables \<times> datetime \<times> datetime) prog" where
  "generate cfg =
     bnd now (\<lambda>t0. bnd now (\<lambda>END_DATE.
     let START_DATE = t0 - timedelta 730 in
     seq (prints [''Starting Bayut Marketplace Data Generation'', replicate 70 (CHR ''=''),
                  ''STEP 1/4: Generating Users...'']) (
     bnd (for_loop (gen_user START_DATE END_DATE) [1..NUM_USERS cfg] []) (\<lambda>users.
     seq (print_count ''Generated users'' (int (length users))) (
     seq (print ''STEP 2/4: Generating Listings...'') (
     bnd (for_loop (gen_listing cfg START_DATE END_DATE) [1..NUM_LISTINGS cfg] []) (\<lambda>listings.
     seq (print_count ''Generated listings'' (int (length listings))) (
     seq (print ''STEP 3/4: Generating Leads...'') (
     bnd (for_loop (gen_lead cfg listings END_DATE) [1..NUM_LEADS cfg] []) (\<lambda>leads.
     seq (print_count ''Generated leads'' (int (length leads))) (
     seq (print ''STEP 4/4: Generating Transactions...'') (
     bnd (for_loop (gen_transaction cfg START_DATE END_DATE) [1..NUM_TRANSACTIONS cfg] [])
       (\<lambda>transactions.
     seq (print_count ''Generated transactions'' (int (length transactions))) (
     ret (\<lparr>users_df = users, listings_df = listings, leads_df = leads,
           transactions_df = transactions\<rparr>, START_DATE, END_DATE)))))))))))))))"


section \<open>The two sinks and the script\<close>

text \<open>
  What the environment decides is a parameter: whether a file of the working directory
  can be written (\<open>disk_ok\<close>), whether \<^verbatim>\<open>create_engine\<close> returns (\<open>engine_ok\<close>) and
  whether the store accepts the rows of a table (\<open>db_ok\<close>). A failed write raises and
  leaves the file system or the store as it was. \<^verbatim>\<open>to_sql(..., if_exists='append')\<close>
  inserts the frame's rows after the rows the table already has, and creates the table
  when it is missing. An attempt on the store is logged whether or not it succeeds.
\<close>

record env =
  disk_ok :: "string \<Rightarrow> bool"
  engine_ok :: bool
  db_ok :: "string \<Rightarrow> bool"

definition to_csv :: "env \<Rightarrow> frame \<Rightarrow> string \<Rightarrow> unit prog" where
  "to_csv ev df name w =
     (if disk_ok ev name
      then (Inr (), w\<lparr>files := (files w)(name \<mapsto> df), log := log w @ [WriteCsv name]\<rparr>)
      else (Inl OSError, w))"

definition create_engine :: "env \<Rightarrow> unit prog" where
  "create_engine ev w = (if engine_ok ev then (Inr (), w) else (Inl DBError, w))"

definition append_rows ::
  "(string \<rightharpoonup> cell list list) \<Rightarrow> string \<Rightarrow> cell list list \<Rightarrow> (string \<rightharpoonup> cell list list)" where
  "append_rows s name rs = s(name \<mapsto> (case s name of None \<Rightarrow> [] | Some old \<Rightarrow> old) @ rs)"

definition to_sql :: "env \<Rightarrow> frame \<Rightarrow> string \<Rightarrow> unit prog" where
  "to_sql ev df name w =
     (let w1 = w\<lparr>log := log w @ [ToSql name]\<rparr>
      in if db_ok ev name
         then (Inr (), w1\<lparr>store := append_rows (store w1) name (rows df)\<rparr>)
         else (Inl DBError, w1))"

definition users_frame :: "tables \<Rightarrow> frame" where
  "users_frame t = DataFrame (map user_dict (users_df t))"

definition listings_frame :: "tables \<Rightarrow> frame" where
  "listings_frame t = DataFrame (map listing_dict (listings_df t))"

definition leads_frame :: "tables \<Rightarrow> frame" where
  "leads_frame t = DataFrame (map lead_dict (leads_df t))"

definition transactions_frame :: "tables \<Rightarrow> frame" where
  "transactions_frame t = DataFrame (map transaction_dict (transactions_df t))"

definition save_csv :: "env \<Rightarrow> tables \<Rightarrow> unit prog" where
  "save_csv ev t =
     seq (print ''Saving backup CSV files...'') (
     seq (to_csv ev (users_frame t) ''users.csv'') (
     seq (to_csv ev (listings_frame t) ''listings.csv'') (
     seq (to_csv ev (leads_frame t) ''leads.csv'') (
     seq (to_csv ev (transactions_frame t) ''transactions.csv'') (
     print ''CSV files saved successfully'')))))"

definition success_message :: "tables \<Rightarrow> unit prog" where
  "success_message t =
     seq (prints [replicate 70 (CHR ''=''), ''SUCCESS! All data loaded to PostgreSQL'',
                  replicate 70 (CHR ''=''), ''Data Summary:'']) (
     seq (print_count ''   Users:        records'' (int (length (users_df t)))) (
     seq (print_count ''   Listings:     records'' (int (length (listings_df t)))) (
     seq (print_count ''   Leads:        records'' (int (length (leads_df t)))) (
     seq (print_count ''   Transactions: records'' (int (length (transactions_df t)))) (
     prints [''Files Created:'', ''   users.csv'', ''   listings.csv'', ''   leads.csv'',
             ''   transactions.csv'', ''Next Steps:'', ''   1. Open pgAdmin and verify data'',
             ''   2. Run SQL queries to analyze data'', ''   3. Connect Power BI to PostgreSQL'',
             ''   4. Build your dashboard!''])))))"

definition load_db :: "env \<Rightarrow> tables \<Rightarrow> unit prog" where
  "load_db ev t =
     seq (create_engine ev) (
     seq (print ''Connecting to: localhost:5433/bayut_marketplace'') (
     seq (to_sql ev (users_frame t) ''users'') (
     seq (print ''Users table loaded'') (
     seq (to_sql ev (listings_frame t) ''listings'') (
     seq (print ''Listings table loaded'') (
     seq (to_sql ev (leads_frame t) ''leads'') (
     seq (print ''Leads table loaded'') (
     seq (to_sql ev (transactions_frame t) ''transactions'') (
     seq (print ''Transactions table loaded'') (
     success_message t))))))))))"

definition handler :: "error \<Rightarrow> unit prog" where
  "handler e =
     seq (prints [replicate 70 (CHR ''=''), ''Error connecting to PostgreSQL'',
                  replicate 70 (CHR ''='')]) (
     seq (print_error e) (
     prints [''Possible issues:'', ''   1. Wrong password - update DB_PASSWORD in the script'',
             ''   2. Database doesn't exist - create 'bayut_marketplace' first'',
             ''   3. PostgreSQL not running - check if service is running'',
             ''Good news: CSV files are still saved!'',
             ''   You can import them manually into PostgreSQL'']))"

definition script :: "(int \<Rightarrow> nat \<Rightarrow> int) \<Rightarrow> config \<Rightarrow> env \<Rightarrow> unit prog" where
  "script mt cfg ev =
     seq (seed mt 42) (
     bnd (generate cfg) (\<lambda>(t, START_DATE, END_DATE).
     seq (save_csv ev t) (
     seq (print ''Connecting to PostgreSQL and loading data...'') (
     try_except (load_db ev t) handler))))"

definition exit_code :: "(error + unit) \<times> world \<Rightarrow> int" where
  "exit_code r = (case fst r of Inl e \<Rightarrow> 1 | Inr u \<Rightarrow> 0)"


section \<open>Assumptions on the configuration and the clock\<close>

text \<open>
  The loops call \<^verbatim>\<open>random.randint(1, NUM_USERS)\<close> and
  \<^verbatim>\<open>random.randint(1, NUM_LISTINGS)\<close>, which raise on an empty range, and
  \<^verbatim>\<open>date_between\<close> needs a window that is not inverted: the second reading of the
  clock must not be more than 730 days before the first.
\<close>

definition valid_config :: "config \<Rightarrow> bool" where
  "valid_config cfg \<longleftrightarrow> 1 \<le> NUM_USERS cfg \<and> 1 \<le> NUM_LISTINGS cfg"

definition clock_ok :: "world \<Rightarrow> bool" where
  "clock_ok w \<longleftrightarrow>
     date_of (feed (clk w) (pos (clk w)) - timedelta 730) \<le> date_of (feed (clk w) (Suc (pos (clk w))))"


section \<open>A concrete environment\<close>

text \<open>
  A world to run the model on: a clock that reads a few seconds past 1 November 2025,
  some tape for Faker's generator, an empty working directory, an empty store and an
  empty log; \<open>mt0\<close> stands for the generator behind \<^verbatim>\<open>random.seed\<close>, and \<open>env_ok\<close> and
  \<open>env_down\<close> are an environment where everything works and one whose store refuses
  every write.
\<close>

definition world0 :: world where
  "world0 =
     \<lparr>py = \<lparr>feed = (\<lambda>i. 0), pos = 0\<rparr>,
      fk = \<lparr>feed = (\<lambda>i. 17 * int i + 5), pos = 0\<rparr>,
      clk = \<lparr>feed = (\<lambda>i. 1762000000 + int i), pos = 0\<rparr>,
      files = Map.empty, store = Map.empty, log = []\<rparr>"

definition mt0 :: "int \<Rightarrow> nat \<Rightarrow> int" where
  "mt0 s i = (s * 7919 + int i * 104729 + int i * int i * 31) * 2 ^ 40 + 12345 * int i"

definition env_ok :: env where
  "env_ok = \<lparr>disk_ok = (\<lambda>n. True), engine_ok = True, db_ok = (\<lambda>n. True)\<rparr>"

definition env_down :: env where
  "env_down = \<lparr>disk_ok = (\<lambda>n. True), engine_ok = True, db_ok = (\<lambda>n. False)\<rparr>"


section \<open>Vocabulary for the log and for the specification's data model\<close>

fun is_print :: "event \<Rightarrow> bool" where
  "is_print (Print s) = True"
| "is_print (PrintCount s n) = True"
| "is_print (PrintError e) = True"
| "is_print (WriteCsv f) = False"
| "is_print (ToSql n) = False"

fun is_sql :: "event \<Rightarrow> bool" where
  "is_sql (ToSql n) = True"
| "is_sql (Print s) = False"
| "is_sql (PrintCount s n) = False"
| "is_sql (PrintError e) = False"
| "is_sql (WriteCsv f) = False"

definition csv_names :: "string list" where
  "csv_names = [''users.csv'', ''listings.csv'', ''leads.csv'', ''transactions.csv'']"

definition table_names :: "string list" where
  "table_names = [''users'', ''listings'', ''leads'', ''transactions'']"

definition store_fails :: "env \<Rightarrow> bool" where
  "store_fails ev \<longleftrightarrow> \<not> engine_ok ev \<or> (\<exists>n\<in>set table_names. \<not> db_ok ev n)"

text \<open>
  A program is \<open>silent\<close> when it leaves the log, the files and the store alone, and \<open>quiet\<close>
  when all it adds to the log are printed lines.
\<close>

definition silent :: "'a prog \<Rightarrow> bool" where
  "silent p \<longleftrightarrow>
     (\<forall>w r w'. p w = (r, w') \<longrightarrow> log w' = log w \<and> files w' = files w \<and> store w' = store w)"

definition quiet :: "'a prog \<Rightarrow> bool" where
  "quiet p \<longleftrightarrow>
     (\<forall>w r w'. p w = (r, w') \<longrightarrow>
        files w' = files w \<and> store w' = store w \<and>
        (\<exists>ps. log w' = log w @ ps \<and> list_all is_print ps))"

text \<open>
  The attribute names of the four entities as section 3 of the specification lists them.
\<close>

definition spec_user_attributes :: "string list" where
  "spec_user_attributes = [''id'', ''signup_date'', ''region'', ''role'']"

definition spec_listing_attributes :: "string list" where
  "spec_listing_attributes =
     [''id'', ''owner_user_id'', ''category'', ''region'', ''price'', ''created_date'', ''status'']"

definition spec_lead_attributes :: "string list" where
  "spec_lead_attributes = [''id'', ''listing_id'', ''user_id'', ''lead_date'']"

definition spec_transaction_attributes :: "string list" where
  "spec_transaction_attributes = [''id'', ''user_id'', ''amount'', ''transaction_date'', ''kind'']"

section \<open>Facts about the rounding\<close>


lemma rne_cases: "rne y = \<lfloor>y\<rfloor> \<or> rne y = \<lfloor>y\<rfloor> + 1"
  by (simp add: rne_def Let_def)

lemma rne_of_int: "rne (of_int n) = n"
  by (simp add: rne_def)

lemma rne_ge_floor: "\<lfloor>y\<rfloor> \<le> rne y"
  using rne_cases [of y] by auto

lemma rne_le_ceiling: "rne y \<le> \<lceil>y\<rceil>"
proof (cases "y = of_int \<lfloor>y\<rfloor>")
  case True
  then have "rne y = \<lfloor>y\<rfloor>" by (metis rne_of_int)
  then show ?thesis by (simp add: floor_le_ceiling)
next
  case False
  then have "\<lceil>y\<rceil> = \<lfloor>y\<rfloor> + 1"
    by (metis ceiling_altdef)
  then show ?thesis using rne_cases [of y] by auto
qed

lemma rne_mono: assumes "x \<le> y" shows "rne x \<le> rne y"
proof (cases "\<lfloor>x\<rfloor> = \<lfloor>y\<rfloor>")
  case True
  then have "x - of_int \<lfloor>x\<rfloor> \<le> y - of_int \<lfloor>y\<rfloor>" using assms by simp
  then show ?thesis using True by (auto simp: rne_def Let_def)
next
  case False
  then have "\<lfloor>x\<rfloor> < \<lfloor>y\<rfloor>" using assms floor_mono [of x y] by linarith
  then have "rne x \<le> \<lfloor>y\<rfloor>" using rne_cases [of x] by auto
  then show ?thesis using rne_ge_floor [of y] by linarith
qed

lemma expo_bounds:
  assumes "0 < x"
  shows "2 powi expo x \<le> x" and "x < 2 powi (expo x + 1)"
proof -
  have "2 powi expo x \<le> x \<and> x < 2 powi (expo x + 1)"
  proof (cases "1 \<le> x")
    case True
    define n where "n = \<lfloor>x\<rfloor>"
    have n: "0 < n" using True by (simp add: n_def)
    have b: "2 ^ nat (bitlen n - 1) \<le> n" "n < 2 ^ nat (bitlen n)"
      using bitlen_bounds [OF n] by auto
    have e: "expo x = bitlen n - 1" using True by (simp add: expo_def n_def)
    have bl: "1 \<le> bitlen n" using n bitlen_eq_zero_iff [of n] bitlen_nonneg [of n] by linarith
    have "(2::rat) powi expo x = of_int (2 ^ nat (bitlen n - 1))"
      using bl by (simp add: e power_int_def)
    also have "\<dots> \<le> of_int n" using b(1) by (simp only: of_int_le_iff)
    also have "\<dots> \<le> x" by (simp add: n_def)
    finally have lo: "2 powi expo x \<le> x" .
    have "x < of_int (n + 1)" using floor_correct [of x] by (simp add: n_def)
    also have "\<dots> \<le> of_int (2 ^ nat (bitlen n))" using b(2) by (simp only: of_int_le_iff)
    also have "\<dots> = (2::rat) powi (expo x + 1)" using bl by (simp add: e power_int_def)
    finally show ?thesis using lo by simp
  next
    case False
    then have x1: "x < 1" by simp
    define m where "m = \<lceil>1 / x\<rceil> - 1"
    have "1 < 1 / x" using assms x1 by simp
    then have m: "0 < m" unfolding m_def by (simp add: less_ceiling_iff)
    have b: "2 ^ nat (bitlen m - 1) \<le> m" "m < 2 ^ nat (bitlen m)"
      using bitlen_bounds [OF m] by auto
    have bl: "1 \<le> bitlen m" using m bitlen_eq_zero_iff [of m] bitlen_nonneg [of m] by linarith
    have e: "expo x = - bitlen m" using False by (simp add: expo_def m_def)
    have c1: "of_int m < 1 / x" using ceiling_correct [of "1 / x"] by (simp add: m_def)
    have c2: "1 / x \<le> of_int (m + 1)" using ceiling_correct [of "1 / x"] by (simp add: m_def)
    have "1 / x \<le> of_int (2 ^ nat (bitlen m))"
    proof -
      have "m + 1 \<le> 2 ^ nat (bitlen m)" using b(2) by simp
      then have "(of_int (m + 1) :: rat) \<le> of_int (2 ^ nat (bitlen m))" by (simp only: of_int_le_iff)
      then show ?thesis using c2 by linarith
    qed
    then have "1 / x \<le> 2 ^ nat (bitlen m)" by simp
    then have "1 \<le> 2 ^ nat (bitlen m) * x" using assms by (simp add: field_simps)
    then have lo: "2 powi expo x \<le> x" using bl
      by (simp add: e power_int_def field_simps)
    have "(2::rat) ^ nat (bitlen m - 1) \<le> of_int m"
      using b(1) by (metis of_int_le_iff of_int_numeral of_int_power)
    then have "2 ^ nat (bitlen m - 1) < 1 / x" using c1 by linarith
    then have "2 ^ nat (bitlen m - 1) * x < 1" using assms by (simp add: field_simps)
    then have "x < inverse (2 ^ nat (bitlen m - 1))" by (simp add: field_simps)
    moreover have "(2::rat) powi (expo x + 1) = inverse (2 ^ nat (bitlen m - 1))"
    proof -
      have "expo x + 1 = - (bitlen m - 1)" by (simp add: e)
      then have "(2::rat) powi (expo x + 1) = inverse (2 powi (bitlen m - 1))"
        by (simp only: power_int_minus)
      also have "(2::rat) powi (bitlen m - 1) = 2 ^ nat (bitlen m - 1)"
        using bl by (simp add: power_int_def)
      finally show ?thesis .
    qed
    ultimately have "x < 2 powi (expo x + 1)" by (simp only:)
    then show ?thesis using lo by simp
  qed
  then show "2 powi expo x \<le> x" and "x < 2 powi (expo x + 1)" by auto
qed

lemma expo_mono: assumes "0 < x" "x \<le> y" shows "expo x \<le> expo y"
proof (rule ccontr)
  assume "\<not> expo x \<le> expo y"
  then have "expo y + 1 \<le> expo x" by simp
  then have "(2::rat) powi (expo y + 1) \<le> 2 powi expo x"
    by (intro power_int_increasing) auto
  moreover have "y < 2 powi (expo y + 1)" using expo_bounds(2) [of y] assms by simp
  moreover have "2 powi expo x \<le> x" using expo_bounds(1) [OF assms(1)] .
  ultimately show False using assms(2) by linarith
qed


lemma fl_zero: "fl 0 = 0"
  by (simp add: fl_def)

lemma fl_pos_eq:
  "0 < x \<Longrightarrow> fl x = of_int (rne (x / 2 powi (expo x - 52))) * 2 powi (expo x - 52)"
  by (simp add: fl_def Let_def)

lemma ulp_split: "(2::rat) powi e = 2 ^ 52 * 2 powi (e - 52)"
proof -
  have "(2::rat) powi e = 2 powi (52 + (e - 52))" by simp
  also have "\<dots> = 2 powi 52 * 2 powi (e - 52)" by (rule power_int_add) simp
  finally show ?thesis by simp
qed

lemma fl_lower: assumes "0 < x" shows "2 powi expo x \<le> fl x"
proof -
  define u :: rat where "u = 2 powi (expo x - 52)"
  have u: "0 < u" by (simp add: u_def)
  have "2 ^ 52 * u \<le> x" using expo_bounds(1) [OF assms] ulp_split [of "expo x"] by (simp add: u_def)
  then have "of_int (2 ^ 52) \<le> x / u" using u by (simp add: field_simps)
  then have "rne (of_int (2 ^ 52)) \<le> rne (x / u)" by (rule rne_mono)
  then have "2 ^ 52 \<le> rne (x / u)" by (simp only: rne_of_int)
  then have "(of_int (2 ^ 52) :: rat) \<le> of_int (rne (x / u))" by (simp only: of_int_le_iff)
  then have "2 ^ 52 * u \<le> of_int (rne (x / u)) * u" using u by simp
  then show ?thesis using ulp_split [of "expo x"] fl_pos_eq [OF assms] by (simp add: u_def)
qed

lemma fl_upper: assumes "0 < x" shows "fl x \<le> 2 powi (expo x + 1)"
proof -
  define u :: rat where "u = 2 powi (expo x - 52)"
  have u: "0 < u" by (simp add: u_def)
  have s: "(2::rat) powi (expo x + 1) = 2 ^ 53 * u"
  proof -
    have "expo x + 1 = 53 + (expo x - 52)" by arith
    then have "(2::rat) powi (expo x + 1) = 2 powi (53 + (expo x - 52))" by (simp only:)
    also have "\<dots> = 2 powi 53 * 2 powi (expo x - 52)" by (rule power_int_add) simp
    finally show ?thesis by (simp add: u_def)
  qed
  have "x \<le> 2 ^ 53 * u" using expo_bounds(2) [OF assms] s by simp
  then have "x / u \<le> of_int (2 ^ 53)" using u by (simp add: field_simps)
  then have "rne (x / u) \<le> rne (of_int (2 ^ 53))" by (rule rne_mono)
  then have "rne (x / u) \<le> 2 ^ 53" by (simp only: rne_of_int)
  then have "(of_int (rne (x / u)) :: rat) \<le> of_int (2 ^ 53)" by (simp only: of_int_le_iff)
  then have "of_int (rne (x / u)) * u \<le> 2 ^ 53 * u" using u by simp
  then show ?thesis using s fl_pos_eq [OF assms] by (simp add: u_def)
qed

lemma fl_pos: "0 < x \<Longrightarrow> 0 < fl x"
proof -
  assume x: "0 < x"
  have "(0::rat) < 2 powi expo x" by simp
  then show ?thesis using fl_lower [OF x] by linarith
qed

lemma fl_nonneg: "0 \<le> x \<Longrightarrow> 0 \<le> fl x"
  using fl_pos [of x] fl_zero by (cases "x = 0") auto

lemma fl_mono: assumes "0 \<le> x" "x \<le> y" shows "fl x \<le> fl y"
proof (cases "x = 0")
  case True
  then show ?thesis using assms fl_nonneg [of y] by (simp add: fl_zero)
next
  case False
  then have x: "0 < x" and y: "0 < y" using assms by auto
  have e: "expo x \<le> expo y" using expo_mono [OF x assms(2)] .
  show ?thesis
  proof (cases "expo x = expo y")
    case True
    define u :: rat where "u = 2 powi (expo y - 52)"
    have u: "0 < u" by (simp add: u_def)
    have "x / u \<le> y / u" using assms(2) u by (simp add: divide_right_mono)
    then have "rne (x / u) \<le> rne (y / u)" by (rule rne_mono)
    then have "(of_int (rne (x / u)) :: rat) \<le> of_int (rne (y / u))" by (simp only: of_int_le_iff)
    then have "of_int (rne (x / u)) * u \<le> of_int (rne (y / u)) * u" using u by simp
    then show ?thesis using fl_pos_eq [OF x] fl_pos_eq [OF y] True by (simp add: u_def)
  next
    case False
    then have "expo x + 1 \<le> expo y" using e by simp
    then have "(2::rat) powi (expo x + 1) \<le> 2 powi expo y"
      by (intro power_int_increasing) auto
    then show ?thesis using fl_upper [OF x] fl_lower [OF y] by linarith
  qed
qed

lemma fl_le: "0 \<le> x \<Longrightarrow> x \<le> c \<Longrightarrow> fl c = c \<Longrightarrow> fl x \<le> c"
  using fl_mono [of x c] by simp

lemma fl_ge: "0 \<le> c \<Longrightarrow> c \<le> x \<Longrightarrow> fl c = c \<Longrightarrow> c \<le> fl x"
  using fl_mono [of c x] by simp

subsection \<open>Rounding to two decimals and the uniform draw\<close>

lemma py_round2_lower:
  assumes "of_int lo \<le> x" and "0 \<le> lo" and "fl (of_int lo) = of_int lo"
  shows "of_int lo \<le> py_round2 x"
proof -
  have "of_int (lo * 100) \<le> x * 100" using assms(1) by simp
  then have "rne (of_int (lo * 100)) \<le> rne (x * 100)" by (rule rne_mono)
  then have "lo * 100 \<le> rne (x * 100)" by (simp only: rne_of_int)
  then have "(of_int (lo * 100) :: rat) \<le> of_int (rne (x * 100))" by (simp only: of_int_le_iff)
  then have l: "(of_int lo :: rat) \<le> of_int (rne (x * 100)) / 100" by simp
  have lo0: "(0::rat) \<le> of_int lo" using assms(2) by simp
  show ?thesis unfolding py_round2_def using fl_ge [OF lo0 l assms(3)] .
qed

lemma py_round2_upper:
  assumes "0 \<le> x" and "x \<le> of_int hi" and "fl (of_int hi) = of_int hi"
  shows "py_round2 x \<le> of_int hi"
proof -
  have "x * 100 \<le> of_int (hi * 100)" using assms(2) by simp
  then have "rne (x * 100) \<le> rne (of_int (hi * 100))" by (rule rne_mono)
  then have "rne (x * 100) \<le> hi * 100" by (simp only: rne_of_int)
  then have "(of_int (rne (x * 100)) :: rat) \<le> of_int (hi * 100)" by (simp only: of_int_le_iff)
  then have h: "of_int (rne (x * 100)) / 100 \<le> (of_int hi :: rat)" by simp
  have "of_int 0 \<le> x * 100" using assms(1) by simp
  then have "rne (of_int 0) \<le> rne (x * 100)" by (rule rne_mono)
  then have "0 \<le> rne (x * 100)" by (simp only: rne_of_int)
  then have "(0::rat) \<le> of_int (rne (x * 100)) / 100" by simp
  then show ?thesis unfolding py_round2_def using fl_le [OF _ h assms(3)] by simp
qed

lemma random_py_range: "random_py g = (r, g') \<Longrightarrow> 0 \<le> r \<and> r < 1"
  by (auto simp: random_py_def draw_def Let_def)

lemma uniform_bounds:
  assumes "uniform a b g = Inr (u, g')" and "0 \<le> a" and "a \<le> b"
    and "fl a = a" and "fl b = b" and "fl (b - a) = b - a"
  shows "a \<le> u" and "u \<le> b"
proof -
  obtain r where r: "random_py g = (r, g')" and u: "u = fl (a + fl ((b - a) * r))"
    using assms(1,6) by (auto simp: uniform_def Let_def split: prod.splits)
  have r01: "0 \<le> r" "r < 1" using random_py_range [OF r] by auto
  have w: "0 \<le> b - a" using assms(3) by simp
  have p0: "0 \<le> (b - a) * r" using w r01 by simp
  have p1: "(b - a) * r \<le> b - a" using w r01 by (simp add: mult_left_le)
  have f0: "0 \<le> fl ((b - a) * r)" using p0 by (rule fl_nonneg)
  have f1: "fl ((b - a) * r) \<le> b - a" using fl_le [OF p0 p1 assms(6)] .
  have "a \<le> a + fl ((b - a) * r)" using f0 by simp
  then show "a \<le> u" unfolding u using fl_ge [OF assms(2) _ assms(4)] by simp
  have "0 \<le> a + fl ((b - a) * r)" "a + fl ((b - a) * r) \<le> b" using f0 f1 assms(2) by auto
  then show "u \<le> b" unfolding u using fl_le [OF _ _ assms(5)] by simp
qed

subsection \<open>Sequencing\<close>

lemma ret_iff: "ret x w = (r, w') \<longleftrightarrow> r = Inr x \<and> w' = w"
  by (auto simp: ret_def)

lemma bnd_Inr:
  "bnd m f w = (Inr y, w') \<longleftrightarrow> (\<exists>x w1. m w = (Inr x, w1) \<and> f x w1 = (Inr y, w'))"
  by (auto simp: bnd_def split: prod.splits sum.splits)

lemma bnd_Inl:
  "bnd m f w = (Inl e, w') \<longleftrightarrow>
     m w = (Inl e, w') \<or> (\<exists>x w1. m w = (Inr x, w1) \<and> f x w1 = (Inl e, w'))"
  by (auto simp: bnd_def split: prod.splits sum.splits)

lemma seq_Inr:
  "seq m k w = (Inr y, w') \<longleftrightarrow> (\<exists>w1. m w = (Inr (), w1) \<and> k w1 = (Inr y, w'))"
  by (simp add: seq_def bnd_Inr)

lemma seq_Inl:
  "seq m k w = (Inl e, w') \<longleftrightarrow>
     m w = (Inl e, w') \<or> (\<exists>w1. m w = (Inr (), w1) \<and> k w1 = (Inl e, w'))"
  by (simp add: seq_def bnd_Inl)

lemma bnd_ok:
  assumes "m w = (Inr x, w1)" shows "bnd m f w = f x w1"
  using assms by (simp add: bnd_def)

lemma seq_ok:
  assumes "m w = (Inr (), w1)" shows "seq m k w = k w1"
  using assms by (simp add: seq_def bnd_def)

lemma print_eq: "print s w = (Inr (), w\<lparr>log := log w @ [Print s]\<rparr>)"
  by (simp add: print_def)

lemma print_count_eq: "print_count s n w = (Inr (), w\<lparr>log := log w @ [PrintCount s n]\<rparr>)"
  by (simp add: print_count_def)

lemma print_error_eq: "print_error e w = (Inr (), w\<lparr>log := log w @ [PrintError e]\<rparr>)"
  by (simp add: print_error_def)

lemma prints_eq: "prints ss w = (Inr (), w\<lparr>log := log w @ map Print ss\<rparr>)"
  by (induction ss arbitrary: w) (simp_all add: ret_def seq_def bnd_def print_def)

lemma call_py_Inr:
  "call_py f w = (Inr x, w') \<longleftrightarrow> (\<exists>g. f (py w) = Inr (x, g) \<and> w' = w\<lparr>py := g\<rparr>)"
  by (auto simp: call_py_def split: sum.splits)

lemma call_fk_Inr:
  "call_fk f w = (Inr x, w') \<longleftrightarrow> (\<exists>g. f (fk w) = Inr (x, g) \<and> w' = w\<lparr>fk := g\<rparr>)"
  by (auto simp: call_fk_def split: sum.splits)

lemma call_py_ok:
  assumes "f (py w) = Inr (x, g)" shows "call_py f w = (Inr x, w\<lparr>py := g\<rparr>)"
  using assms by (simp add: call_py_def)

lemma call_fk_ok:
  assumes "f (fk w) = Inr (x, g)" shows "call_fk f w = (Inr x, w\<lparr>fk := g\<rparr>)"
  using assms by (simp add: call_fk_def)

subsection \<open>Ranges of the library calls\<close>

lemma randint_range: "randint a b g = Inr (x, g') \<Longrightarrow> a \<le> x \<and> x \<le> b"
proof -
  assume h: "randint a b g = Inr (x, g')"
  then have ab: "a \<le> b" by (auto simp: randint_def split: if_splits)
  then have "0 < b - a + 1" by simp
  then have "0 \<le> feed g (pos g) mod (b - a + 1)" "feed g (pos g) mod (b - a + 1) < b - a + 1"
    by (simp_all only: pos_mod_sign pos_mod_bound)
  moreover have "x = a + feed g (pos g) mod (b - a + 1)"
    using h ab by (auto simp: randint_def draw_def Let_def)
  ultimately show ?thesis by linarith
qed

lemma randint_total: "a \<le> b \<Longrightarrow> \<exists>x g'. randint a b g = Inr (x, g')"
  by (auto simp: randint_def draw_def Let_def)

lemma randint_error: "randint a b g = Inl e \<Longrightarrow> e = ValueError \<and> b < a"
  by (auto simp: randint_def draw_def Let_def split: if_splits)

lemma date_between_range:
  "date_between s e g = Inr (d, g') \<Longrightarrow> date_of s \<le> d \<and> d \<le> date_of e"
proof -
  assume h: "date_between s e g = Inr (d, g')"
  then have ab: "date_of s \<le> date_of e" by (auto simp: date_between_def Let_def split: if_splits)
  then have "0 < date_of e - date_of s + 1" by simp
  then have "0 \<le> feed g (pos g) mod (date_of e - date_of s + 1)"
    "feed g (pos g) mod (date_of e - date_of s + 1) < date_of e - date_of s + 1"
    by (simp_all only: pos_mod_sign pos_mod_bound)
  moreover have "d = date_of s + feed g (pos g) mod (date_of e - date_of s + 1)"
    using h ab by (auto simp: date_between_def draw_def Let_def)
  ultimately show ?thesis by linarith
qed

lemma date_between_total:
  "date_of s \<le> date_of e \<Longrightarrow> \<exists>d g'. date_between s e g = Inr (d, g')"
  by (auto simp: date_between_def draw_def Let_def)

lemma date_between_error: "date_between s e g = Inl x \<Longrightarrow> x = ValueError"
  by (auto simp: date_between_def draw_def Let_def split: if_splits)

lemma date_of_to_datetime: "date_of (to_datetime d) = d"
  by (simp add: date_of_def to_datetime_def)

lemma choice_mem: "choice xs g = Inr (x, g') \<Longrightarrow> x \<in> set xs"
proof -
  assume h: "choice xs g = Inr (x, g')"
  then have ne: "xs \<noteq> []" by (auto simp: choice_def split: if_splits)
  then have "0 < int (length xs)" by simp
  then have "0 \<le> feed g (pos g) mod int (length xs)"
    "feed g (pos g) mod int (length xs) < int (length xs)"
    by (simp_all only: pos_mod_sign pos_mod_bound)
  then have "nat (feed g (pos g) mod int (length xs)) < length xs" by linarith
  moreover have "x = xs ! nat (feed g (pos g) mod int (length xs))"
    using h ne by (auto simp: choice_def draw_def Let_def)
  ultimately show ?thesis by simp
qed

lemma choice_total: "xs \<noteq> [] \<Longrightarrow> \<exists>x g'. choice xs g = Inr (x, g')"
  by (auto simp: choice_def draw_def Let_def)

lemma length_accumulate: "length (accumulate s ws) = length ws"
  by (induction ws arbitrary: s) simp_all

lemma bisect_le: "bisect cum x hi \<le> hi"
proof -
  have "length (takeWhile (\<lambda>c. of_int c \<le> x) (take hi cum)) \<le> length (take hi cum)"
    by (rule length_takeWhile_le)
  then show ?thesis by (simp add: bisect_def)
qed

lemma choices_mem: "choices population weights g = Inr (x, g') \<Longrightarrow> x \<in> set population"
proof -
  assume h: "choices population weights g = Inr (x, g')"
  then have ne: "accumulate 0 weights \<noteq> []"
    and len: "length (accumulate 0 weights) = length population"
    by (auto simp: choices_def Let_def split: if_splits)
  then have pos: "0 < length population" by (cases population) auto
  obtain i where x: "x = population ! bisect (accumulate 0 weights) i (length population - 1)"
    using h by (auto simp: choices_def Let_def split: if_splits prod.splits)
  have "bisect (accumulate 0 weights) i (length population - 1) < length population"
    using bisect_le [of "accumulate 0 weights" i "length population - 1"] pos by linarith
  then show ?thesis unfolding x by simp
qed

lemma choices_total:
  assumes "length weights = length population" and "population \<noteq> []"
    and "0 < last (accumulate 0 weights)"
  shows "\<exists>x g'. choices population weights g = Inr (x, g')"
proof -
  have "accumulate 0 weights \<noteq> []"
    using assms(1,2) length_accumulate [of 0 weights] by (metis length_0_conv)
  then show ?thesis
    using assms by (auto simp: choices_def Let_def length_accumulate split: prod.splits)
qed

lemma uniform_total: "\<exists>u g'. uniform a b g = Inr (u, g')"
  by (auto simp: uniform_def Let_def split: prod.splits)

lemma first_value_Inr:
  "first_value xs w = (Inr x, w') \<longleftrightarrow> (\<exists>ys. xs = x # ys) \<and> w' = w"
  by (auto simp: first_value_def split: list.splits)

lemma lookup_Inr:
  "lookup d k w = (Inr v, w') \<longleftrightarrow> map_of d k = Some v \<and> w' = w"
  by (auto simp: lookup_def split: option.splits)

subsection \<open>Loops\<close>

lemma for_loop_produced:
  assumes "for_loop body ns acc w = (Inr xs, w')"
  shows "\<exists>ys. xs = acc @ ys \<and> list_all2 (\<lambda>i x. \<exists>v v'. body i v = (Inr x, v')) ns ys"
  using assms
proof (induction ns arbitrary: acc w)
  case Nil
  then show ?case by simp
next
  case (Cons i ns)
  from Cons.prems obtain x w1 where b: "body i w = (Inr x, w1)"
    and r: "for_loop body ns (acc @ [x]) w1 = (Inr xs, w')"
    by (auto split: prod.splits sum.splits)
  from Cons.IH [OF r] obtain ys where ys: "xs = (acc @ [x]) @ ys"
    and a: "list_all2 (\<lambda>i x. \<exists>v v'. body i v = (Inr x, v')) ns ys" by blast
  have "list_all2 (\<lambda>i x. \<exists>v v'. body i v = (Inr x, v')) (i # ns) (x # ys)"
    using a b by auto
  then show ?case using ys by auto
qed

lemma for_loop_total:
  assumes "\<And>i v. i \<in> set ns \<Longrightarrow> \<exists>x v'. body i v = (Inr x, v')"
  shows "\<exists>xs w'. for_loop body ns acc w = (Inr xs, w')"
  using assms
proof (induction ns arbitrary: acc w)
  case Nil
  then show ?case by simp
next
  case (Cons i ns)
  obtain x w1 where b: "body i w = (Inr x, w1)" using Cons.prems [of i w] by auto
  have "\<exists>xs w'. for_loop body ns (acc @ [x]) w1 = (Inr xs, w')"
    by (rule Cons.IH) (simp add: Cons.prems)
  then show ?case using b by simp
qed

lemma for_loop_frame:
  assumes "\<And>i v r v'. body i v = (r, v') \<Longrightarrow> F v' = F v"
    and "for_loop body ns acc w = (r, w')"
  shows "F w' = F w"
  using assms(2)
proof (induction ns arbitrary: acc w)
  case Nil
  then show ?case by simp
next
  case (Cons i ns)
  obtain r1 w1 where b: "body i w = (r1, w1)" by (cases "body i w")
  show ?case
  proof (cases r1)
    case (Inl e)
    then show ?thesis using Cons.prems b assms(1) [OF b] by simp
  next
    case (Inr x)
    then have "for_loop body ns (acc @ [x]) w1 = (r, w')" using Cons.prems b by simp
    then have "F w' = F w1" by (rule Cons.IH)
    then show ?thesis using assms(1) [OF b] by simp
  qed
qed

lemma for_loop_error:
  assumes "\<And>i v e v'. body i v = (Inl e, v') \<Longrightarrow> P e"
    and "for_loop body ns acc w = (Inl e, w')"
  shows "P e"
  using assms(2)
proof (induction ns arbitrary: acc w)
  case Nil
  then show ?case by simp
next
  case (Cons i ns)
  obtain r1 w1 where b: "body i w = (r1, w1)" by (cases "body i w")
  show ?case
  proof (cases r1)
    case (Inl e1)
    then show ?thesis using Cons.prems b assms(1) [of i w e1 w1] by simp
  next
    case (Inr x)
    then have "for_loop body ns (acc @ [x]) w1 = (Inl e, w')" using Cons.prems b by simp
    then show ?thesis by (rule Cons.IH)
  qed
qed

subsection \<open>One iteration of each loop\<close>

lemma bnd_total:
  assumes "\<exists>x w1. m w = (Inr x, w1)"
    and "\<And>x w1. m w = (Inr x, w1) \<Longrightarrow> \<exists>y w'. f x w1 = (Inr y, w')"
  shows "\<exists>y w'. bnd m f w = (Inr y, w')"
  using assms by (auto simp: bnd_def)

lemma seq_total:
  assumes "\<exists>w1. m w = (Inr (), w1)"
    and "\<And>w1. m w = (Inr (), w1) \<Longrightarrow> \<exists>y w'. k w1 = (Inr y, w')"
  shows "\<exists>y w'. seq m k w = (Inr y, w')"
  using assms by (auto simp: seq_def bnd_def)

lemma call_py_total:
  assumes "\<exists>x g. f (py w) = Inr (x, g)" shows "\<exists>x w1. call_py f w = (Inr x, w1)"
  using assms by (auto simp: call_py_def)

lemma call_fk_total:
  assumes "\<exists>x g. f (fk w) = Inr (x, g)" shows "\<exists>x w1. call_fk f w = (Inr x, w1)"
  using assms by (auto simp: call_fk_def)

lemma choices_emirates_total:
  "\<exists>x g'. choices EMIRATES [40, 25, 15, 5, 5, 5, 5] g = Inr (x, g')"
  by (rule choices_total) (simp_all add: EMIRATES_def)

lemma choices_categories_total:
  "\<exists>x g'. choices CATEGORIES [35, 25, 15, 10, 10, 5] g = Inr (x, g')"
  by (rule choices_total) (simp_all add: CATEGORIES_def)

lemma choices_user_types_total:
  "\<exists>x g'. choices USER_TYPES [50, 30, 20] g = Inr (x, g')"
  by (rule choices_total) (simp_all add: USER_TYPES_def)

lemma choices_status_total:
  "\<exists>x g'. choices [''active'', ''sold'', ''expired''] [60, 25, 15] g = Inr (x, g')"
  by (rule choices_total) simp_all

lemma choices_kind_total:
  "\<exists>x g'. choices [''subscription'', ''featured_listing''] [60, 40] g = Inr (x, g')"
  by (rule choices_total) simp_all

lemma base_price_defined:
  "c \<in> set CATEGORIES \<Longrightarrow> \<exists>b. map_of base_price_table c = Some b \<and> 800000 \<le> b"
  by (auto simp: CATEGORIES_def base_price_table_def)

lemma fl_half: "fl (1 / 2) = 1 / 2"
  by code_simp

lemma multiplier_defined:
  "e \<in> set EMIRATES \<Longrightarrow> \<exists>m. map_of emirate_multiplier_table e = Some m \<and> 1 / 2 \<le> m"
proof -
  have h: "\<And>x. 1 / 2 \<le> x \<Longrightarrow> 1 / 2 \<le> fl x"
    by (rule fl_ge [OF _ _ fl_half]) simp_all
  have "1 / 2 \<le> fl (13 / 10)" "1 / 2 \<le> fl (12 / 10)" "1 / 2 \<le> fl (8 / 10)"
    "1 / 2 \<le> fl (6 / 10)" "1 / 2 \<le> fl (7 / 10)" "1 / 2 \<le> fl (5 / 10)"
    by (rule h, simp)+
  moreover assume "e \<in> set EMIRATES"
  ultimately show ?thesis
    by (auto simp: EMIRATES_def emirate_multiplier_table_def)
qed

lemma gen_user_Inr:
  assumes "gen_user S E i w = (Inr u, w')"
  shows "user_id u = i" and "date_of S \<le> signup_date u" and "signup_date u \<le> date_of E"
    and "emirate u \<in> set EMIRATES" and "user_type u \<in> set USER_TYPES"
    and "\<exists>g. date_between S E (fk w) = Inr (signup_date u, g)"
  using assms unfolding gen_user_def
  by (auto simp: bnd_Inr call_fk_Inr call_py_Inr ret_iff dest: date_between_range choices_mem)

lemma gen_user_total:
  assumes "date_of S \<le> date_of E"
  shows "\<exists>u w'. gen_user S E i w = (Inr u, w')"
  unfolding gen_user_def
  by (intro bnd_total call_fk_total call_py_total date_between_total [OF assms]
      choices_emirates_total choices_user_types_total) (simp add: ret_def)

lemma gen_listing_Inr:
  assumes "gen_listing cfg S E i w = (Inr l, w')"
  shows "listing_id l = i" and "1 \<le> l_user_id l" and "l_user_id l \<le> NUM_USERS cfg"
    and "category l \<in> set CATEGORIES" and "l_emirate l \<in> set EMIRATES"
    and "date_of S \<le> created_date l" and "created_date l \<le> date_of E"
    and "\<exists>b m u g g'. map_of base_price_table (category l) = Some b \<and>
           map_of emirate_multiplier_table (l_emirate l) = Some m \<and>
           uniform (fl (7 / 10)) (3 / 2) g = Inr (u, g') \<and>
           price l = py_round2 (fl (fl (of_int b * m) * u))"
  using assms unfolding gen_listing_def
  apply (auto simp: bnd_Inr call_fk_Inr call_py_Inr ret_iff lookup_Inr
      dest: date_between_range choices_mem randint_range)
  apply blast
  done

lemma gen_listing_total:
  assumes "date_of S \<le> date_of E" and "1 \<le> NUM_USERS cfg"
  shows "\<exists>l w'. gen_listing cfg S E i w = (Inr l, w')"
  unfolding gen_listing_def
proof (intro bnd_total call_fk_total call_py_total date_between_total [OF assms(1)]
    randint_total [OF assms(2)] choices_emirates_total choices_categories_total
    choices_status_total uniform_total)
  fix uid w1 cat w2 em w3
  assume "call_py (choices CATEGORIES [35, 25, 15, 10, 10, 5]) w1 = (Inr cat, w2)"
  then have "cat \<in> set CATEGORIES" using choices_mem by (auto simp: call_py_Inr)
  then show "\<exists>x w1. lookup base_price_table cat w3 = (Inr x, w1)"
    using base_price_defined [of cat] by (auto simp: lookup_def)
next
  fix em w3 b w4
  assume "call_py (choices EMIRATES [40, 25, 15, 5, 5, 5, 5]) w3 = (Inr em, w4)"
  then have "em \<in> set EMIRATES" using choices_mem by (auto simp: call_py_Inr)
  then show "\<exists>x w1. lookup emirate_multiplier_table em w5 = (Inr x, w1)" for w5
    using multiplier_defined [of em] by (auto simp: lookup_def)
qed (simp add: ret_def)

lemma gen_lead_Inr:
  assumes "gen_lead cfg listings E i w = (Inr d, w')"
  shows "lead_id d = i" and "1 \<le> ld_listing_id d" and "ld_listing_id d \<le> NUM_LISTINGS cfg"
    and "1 \<le> ld_user_id d" and "ld_user_id d \<le> NUM_USERS cfg"
    and "\<exists>l ls. filter (\<lambda>l. listing_id l = ld_listing_id d) listings = l # ls \<and>
           created_date l \<le> lead_date d"
    and "lead_date d \<le> date_of E"
  using assms unfolding gen_lead_def
  by (auto simp: bnd_Inr call_fk_Inr call_py_Inr ret_iff first_value_Inr map_eq_Cons_conv
      date_of_to_datetime dest!: date_between_range randint_range)

lemma filter_unique:
  assumes "distinct (map f xs)" and "y \<in> set xs"
  shows "filter (\<lambda>x. f x = f y) xs = [y]"
  using assms
proof (induction xs)
  case Nil
  then show ?case by simp
next
  case (Cons x xs)
  show ?case
  proof (cases "x = y")
    case True
    then have "f y \<notin> f ` set xs" using Cons.prems(1) by simp
    then have "\<forall>x\<in>set xs. f x \<noteq> f y" by (metis imageI)
    then have "filter (\<lambda>x. f x = f y) xs = []" by (simp add: filter_empty_conv)
    then show ?thesis using True by simp
  next
    case False
    then have y: "y \<in> set xs" using Cons.prems(2) by simp
    then have "f x \<noteq> f y" using Cons.prems(1) by force
    then show ?thesis using Cons.IH y Cons.prems(1) by simp
  qed
qed

lemma lookup_by_id:
  assumes "map listing_id listings = [1..n]" and "1 \<le> k" and "k \<le> n"
  shows "\<exists>l. l \<in> set listings \<and> listing_id l = k \<and>
           filter (\<lambda>l. listing_id l = k) listings = [l]"
proof -
  have "k \<in> set (map listing_id listings)" using assms by simp
  then obtain l where l: "l \<in> set listings" "listing_id l = k" by auto
  have "distinct (map listing_id listings)" using assms(1) by simp
  then have "filter (\<lambda>x. listing_id x = listing_id l) listings = [l]"
    using l(1) by (rule filter_unique)
  then show ?thesis using l by auto
qed

lemma gen_lead_total:
  assumes "map listing_id listings = [1..NUM_LISTINGS cfg]"
    and "\<forall>l\<in>set listings. created_date l \<le> date_of E"
    and "1 \<le> NUM_USERS cfg" and "1 \<le> NUM_LISTINGS cfg"
  shows "\<exists>d w'. gen_lead cfg listings E i w = (Inr d, w')"
  unfolding gen_lead_def
proof (intro bnd_total call_py_total randint_total [OF assms(3)] randint_total [OF assms(4)])
  fix lid w1 uid w2
  assume "call_py (randint 1 (NUM_LISTINGS cfg)) w = (Inr lid, w1)"
  then have "1 \<le> lid \<and> lid \<le> NUM_LISTINGS cfg"
    by (auto simp: call_py_Inr dest: randint_range)
  then obtain l where l: "l \<in> set listings" "filter (\<lambda>l. listing_id l = lid) listings = [l]"
    using lookup_by_id [OF assms(1), of lid] by auto
  show "\<exists>x w1. first_value (map created_date (filter (\<lambda>l. listing_id l = lid) listings)) w2 =
          (Inr x, w1)"
    by (simp add: l(2) first_value_def)
  fix c w3
  assume "first_value (map created_date (filter (\<lambda>l. listing_id l = lid) listings)) w2 =
            (Inr c, w3)"
  then have "c = created_date l" by (simp add: l(2) first_value_def)
  then have "date_of (to_datetime c) \<le> date_of E"
    using assms(2) l(1) by (simp add: date_of_to_datetime)
  then show "\<exists>x w1. call_fk (date_between (to_datetime c) E) w3 = (Inr x, w1)"
    by (intro call_fk_total date_between_total)
qed (simp add: ret_def)

lemma call_py_Inl: "call_py f w = (Inl e, w') \<longleftrightarrow> f (py w) = Inl e \<and> w' = w"
  by (auto simp: call_py_def split: sum.splits)

lemma call_fk_Inl: "call_fk f w = (Inl e, w') \<longleftrightarrow> f (fk w) = Inl e \<and> w' = w"
  by (auto simp: call_fk_def split: sum.splits)

lemma first_value_Inl:
  "first_value xs w = (Inl e, w') \<longleftrightarrow> xs = [] \<and> e = IndexError \<and> w' = w"
  by (auto simp: first_value_def split: list.splits)

lemma gen_lead_error:
  assumes "map listing_id listings = [1..NUM_LISTINGS cfg]"
    and "gen_lead cfg listings E i w = (Inl e, w')"
  shows "e = ValueError"
proof -
  have "e = ValueError \<or> (\<exists>lid. 1 \<le> lid \<and> lid \<le> NUM_LISTINGS cfg \<and>
          filter (\<lambda>l. listing_id l = lid) listings = [])"
    using assms(2) unfolding gen_lead_def
    by (auto simp: bnd_Inl call_py_Inl call_py_Inr call_fk_Inl first_value_Inl ret_iff
        dest: randint_error date_between_error randint_range)
  then show ?thesis using lookup_by_id [OF assms(1)] by fastforce
qed

lemma fl_100: "fl 100 = 100"
  by code_simp

lemma fl_500: "fl 500 = 500"
  by code_simp

lemma fl_400: "fl 400 = 400"
  by code_simp

lemma featured_amount_range:
  assumes "uniform 100 500 g = Inr (x, g')"
  shows "100 \<le> py_round2 x" and "py_round2 x \<le> 500"
proof -
  have b: "100 \<le> x" "x \<le> 500"
    using uniform_bounds [OF assms] fl_100 fl_500 fl_400 by simp_all
  show "100 \<le> py_round2 x"
    using py_round2_lower [of 100 x] b fl_100 by simp
  show "py_round2 x \<le> 500"
    using py_round2_upper [of x 500] b fl_500 by simp
qed

lemma gen_amount_Inr:
  assumes "gen_amount ttype w = (Inr a, w')"
  shows "ttype = ''subscription'' \<Longrightarrow> a \<in> PyInt ` {500, 1000, 2000, 5000}"
    and "ttype \<noteq> ''subscription'' \<Longrightarrow>
           \<exists>x g g'. uniform 100 500 g = Inr (x, g') \<and> a = PyFloat x"
  using assms unfolding gen_amount_def
  by (auto simp: bnd_Inr call_py_Inr ret_iff dest!: choice_mem split: if_splits)

lemma gen_amount_total: "\<exists>a w'. gen_amount ttype w = (Inr a, w')"
  unfolding gen_amount_def
  by (auto intro!: bnd_total call_py_total choice_total uniform_total simp: ret_def)

lemma gen_transaction_Inr:
  assumes "gen_transaction cfg S E i w = (Inr t, w')"
  shows "transaction_id t = i" and "1 \<le> t_user_id t" and "t_user_id t \<le> NUM_USERS cfg"
    and "transaction_type t \<in> {''subscription'', ''featured_listing''}"
    and "date_of S \<le> transaction_date t" and "transaction_date t \<le> date_of E"
    and "\<exists>a v v'. gen_amount (transaction_type t) v = (Inr a, v') \<and> amount t = round2 a"
  using assms unfolding gen_transaction_def
  apply (auto simp: bnd_Inr call_fk_Inr call_py_Inr ret_iff
      dest!: date_between_range choices_mem randint_range)
   apply blast+
  done

lemma gen_transaction_total:
  assumes "date_of S \<le> date_of E" and "1 \<le> NUM_USERS cfg"
  shows "\<exists>t w'. gen_transaction cfg S E i w = (Inr t, w')"
  unfolding gen_transaction_def
  by (intro bnd_total call_fk_total call_py_total date_between_total [OF assms(1)]
      randint_total [OF assms(2)] choices_kind_total gen_amount_total) (simp add: ret_def)

subsection \<open>What a finished loop has produced\<close>

lemma list_all2_key:
  "list_all2 (\<lambda>i x. P i x) ns ys \<Longrightarrow> (\<And>i x. P i x \<Longrightarrow> f x = i) \<Longrightarrow> map f ys = ns"
  by (induction rule: list_all2_induct) auto

lemma list_all2_each:
  "list_all2 P ns ys \<Longrightarrow> y \<in> set ys \<Longrightarrow> \<exists>i\<in>set ns. P i y"
  by (induction rule: list_all2_induct) auto

lemma listings_loop:
  assumes "for_loop (gen_listing cfg S E) ns [] w = (Inr ls, w')"
  shows "map listing_id ls = ns"
    and "\<forall>l\<in>set ls. \<exists>i v v'. gen_listing cfg S E i v = (Inr l, v')"
proof -
  from for_loop_produced [OF assms]
  have a: "list_all2 (\<lambda>i x. \<exists>v v'. gen_listing cfg S E i v = (Inr x, v')) ns ls" by simp
  show "map listing_id ls = ns"
    using a by (rule list_all2_key) (auto dest: gen_listing_Inr(1))
  show "\<forall>l\<in>set ls. \<exists>i v v'. gen_listing cfg S E i v = (Inr l, v')"
    using list_all2_each [OF a] by blast
qed

lemma now_eq:
  "now w = (Inr (feed (clk w) (pos (clk w))), w\<lparr>clk := (clk w)\<lparr>pos := Suc (pos (clk w))\<rparr>\<rparr>)"
  by (simp add: now_def draw_def)

lemma generate_Inr:
  assumes "generate cfg w = (Inr (t, S, E), w')"
  shows "S = feed (clk w) (pos (clk w)) - timedelta 730"
    and "E = feed (clk w) (Suc (pos (clk w)))"
    and "\<exists>v'. for_loop (gen_user S E) [1..NUM_USERS cfg] []
           (w\<lparr>clk := clk w\<lparr>pos := Suc (Suc (pos (clk w)))\<rparr>,
              log := log w @ [Print ''Starting Bayut Marketplace Data Generation'',
                Print (replicate 70 (CHR ''='')), Print ''STEP 1/4: Generating Users...'']\<rparr>) =
           (Inr (users_df t), v')"
    and "\<exists>v v'. for_loop (gen_listing cfg S E) [1..NUM_LISTINGS cfg] [] v =
           (Inr (listings_df t), v')"
    and "\<exists>v v'. for_loop (gen_lead cfg (listings_df t) E) [1..NUM_LEADS cfg] [] v =
           (Inr (leads_df t), v')"
    and "\<exists>v v'. for_loop (gen_transaction cfg S E) [1..NUM_TRANSACTIONS cfg] [] v =
           (Inr (transactions_df t), v')"
  using assms unfolding generate_def
       apply (auto simp: bnd_Inr seq_Inr ret_iff now_eq Let_def print_eq print_count_eq)
    apply blast+
  done

lemma users_spec:
  assumes "generate cfg w = (Inr (t, S, E), w')"
  shows "list_all2 (\<lambda>i x. \<exists>v v'. gen_user S E i v = (Inr x, v')) [1..NUM_USERS cfg] (users_df t)"
  using generate_Inr(3) [OF assms] for_loop_produced by fastforce

lemma listings_spec:
  assumes "generate cfg w = (Inr (t, S, E), w')"
  shows "list_all2 (\<lambda>i x. \<exists>v v'. gen_listing cfg S E i v = (Inr x, v'))
           [1..NUM_LISTINGS cfg] (listings_df t)"
  using generate_Inr(4) [OF assms] for_loop_produced by fastforce

lemma leads_spec:
  assumes "generate cfg w = (Inr (t, S, E), w')"
  shows "list_all2 (\<lambda>i x. \<exists>v v'. gen_lead cfg (listings_df t) E i v = (Inr x, v'))
           [1..NUM_LEADS cfg] (leads_df t)"
  using generate_Inr(5) [OF assms] for_loop_produced by fastforce

lemma transactions_spec:
  assumes "generate cfg w = (Inr (t, S, E), w')"
  shows "list_all2 (\<lambda>i x. \<exists>v v'. gen_transaction cfg S E i v = (Inr x, v'))
           [1..NUM_TRANSACTIONS cfg] (transactions_df t)"
  using generate_Inr(6) [OF assms] for_loop_produced by fastforce

lemma listing_ids:
  assumes "generate cfg w = (Inr (t, S, E), w')"
  shows "map listing_id (listings_df t) = [1..NUM_LISTINGS cfg]"
  using listings_spec [OF assms] by (rule list_all2_key) (auto dest: gen_listing_Inr(1))

lemma generate_total:
  assumes "valid_config cfg" and "clock_ok w"
  shows "\<exists>t S E w'. generate cfg w = (Inr (t, S, E), w')"
proof -
  define S where "S = feed (clk w) (pos (clk w)) - timedelta 730"
  define E where "E = feed (clk w) (Suc (pos (clk w)))"
  have win: "date_of S \<le> date_of E" using assms(2) by (simp add: clock_ok_def S_def E_def)
  have nu: "1 \<le> NUM_USERS cfg" and nl: "1 \<le> NUM_LISTINGS cfg"
    using assms(1) by (simp_all add: valid_config_def)
  have users: "\<exists>xs v'. for_loop (gen_user S E) ns [] v = (Inr xs, v')" for ns v
    by (rule for_loop_total) (rule gen_user_total [OF win])
  have listings: "\<exists>xs v'. for_loop (gen_listing cfg S E) ns [] v = (Inr xs, v')" for ns v
    by (rule for_loop_total) (rule gen_listing_total [OF win nu])
  have txns: "\<exists>xs v'. for_loop (gen_transaction cfg S E) ns [] v = (Inr xs, v')" for ns v
    by (rule for_loop_total) (rule gen_transaction_total [OF win nu])
  have leads: "\<exists>xs v'. for_loop (gen_lead cfg ls E) ns [] v = (Inr xs, v')"
    if "for_loop (gen_listing cfg S E) [1..NUM_LISTINGS cfg] [] u = (Inr ls, u')"
    for ls ns v u u'
  proof (rule for_loop_total, rule gen_lead_total [OF _ _ nu nl])
    show "map listing_id ls = [1..NUM_LISTINGS cfg]" using listings_loop(1) [OF that] .
    show "\<forall>l\<in>set ls. created_date l \<le> date_of E"
      using listings_loop(2) [OF that] by (auto dest: gen_listing_Inr(7))
  qed
  have "\<exists>y v'. generate cfg w = (Inr y, v')"
    unfolding generate_def
    apply (simp add: bnd_ok [OF now_eq] Let_def S_def [symmetric] E_def [symmetric]
        del: split_paired_Ex split_paired_All)
    apply (intro seq_total bnd_total users listings txns)
    apply (auto intro: leads simp: seq_def bnd_def print_eq print_count_eq ret_def)
    done
  then show ?thesis by auto
qed

section \<open>What the generation leaves alone\<close>

lemma silent_ret: "silent (ret x)"
  by (simp add: silent_def ret_def)

lemma silent_bnd:
  assumes "silent m" and "\<And>x. silent (f x)"
  shows "silent (bnd m f)"
  unfolding silent_def
proof (intro allI impI)
  fix w r w' assume h: "bnd m f w = (r, w')"
  obtain r1 w1 where m: "m w = (r1, w1)" by (cases "m w")
  have a: "log w1 = log w \<and> files w1 = files w \<and> store w1 = store w"
    using assms(1) m by (auto simp: silent_def)
  show "log w' = log w \<and> files w' = files w \<and> store w' = store w"
  proof (cases r1)
    case (Inl e)
    then show ?thesis using h m a by (simp add: bnd_def)
  next
    case (Inr x)
    then have "f x w1 = (r, w')" using h m by (simp add: bnd_def)
    then have "log w' = log w1 \<and> files w' = files w1 \<and> store w' = store w1"
      using assms(2) [of x] by (auto simp: silent_def)
    then show ?thesis using a by simp
  qed
qed

lemma silent_call_py: "silent (call_py f)"
  by (auto simp: silent_def call_py_def split: sum.splits)

lemma silent_call_fk: "silent (call_fk f)"
  by (auto simp: silent_def call_fk_def split: sum.splits)

lemma silent_lookup: "silent (lookup d k)"
  by (auto simp: silent_def lookup_def split: option.splits)

lemma silent_first_value: "silent (first_value xs)"
  by (auto simp: silent_def first_value_def split: list.splits)

lemma silent_for_loop:
  assumes "\<And>i. silent (body i)"
  shows "silent (for_loop body ns acc)"
  unfolding silent_def
proof (intro allI impI)
  fix w r w' assume h: "for_loop body ns acc w = (r, w')"
  have "(log w', files w', store w') = (log w, files w, store w)"
  proof (rule for_loop_frame [where F = "\<lambda>w. (log w, files w, store w)", OF _ h])
    fix i v r v' assume "body i v = (r, v')"
    then show "(log v', files v', store v') = (log v, files v, store v)"
      using assms [of i] by (auto simp: silent_def)
  qed
  then show "log w' = log w \<and> files w' = files w \<and> store w' = store w" by simp
qed

lemma silent_gen_user: "silent (gen_user S E i)"
  unfolding gen_user_def
  by (intro silent_bnd silent_call_py silent_call_fk silent_ret)

lemma silent_gen_listing: "silent (gen_listing cfg S E i)"
  unfolding gen_listing_def
  by (intro silent_bnd silent_call_py silent_call_fk silent_lookup silent_ret)

lemma silent_gen_lead: "silent (gen_lead cfg ls E i)"
  unfolding gen_lead_def
  by (intro silent_bnd silent_call_py silent_call_fk silent_first_value silent_ret)

lemma silent_gen_amount: "silent (gen_amount ttype)"
  unfolding gen_amount_def
  by (auto intro!: silent_bnd silent_call_py silent_ret)

lemma silent_gen_transaction: "silent (gen_transaction cfg S E i)"
  unfolding gen_transaction_def
  by (intro silent_bnd silent_call_py silent_call_fk silent_gen_amount silent_ret)

lemma quiet_silent: "silent p \<Longrightarrow> quiet p"
  by (auto simp: silent_def quiet_def)

lemma quiet_bnd:
  assumes "quiet m" and "\<And>x. quiet (f x)"
  shows "quiet (bnd m f)"
  unfolding quiet_def
proof (intro allI impI)
  fix w r w' assume h: "bnd m f w = (r, w')"
  obtain r1 w1 where m: "m w = (r1, w1)" by (cases "m w")
  from assms(1) m obtain ps where a: "files w1 = files w" "store w1 = store w"
    "log w1 = log w @ ps" "list_all is_print ps"
    unfolding quiet_def by blast
  show "files w' = files w \<and> store w' = store w \<and>
        (\<exists>ps. log w' = log w @ ps \<and> list_all is_print ps)"
  proof (cases r1)
    case (Inl e)
    then show ?thesis using h m a by (auto simp: bnd_def)
  next
    case (Inr x)
    then have "f x w1 = (r, w')" using h m by (simp add: bnd_def)
    with assms(2) [of x] obtain qs where b: "files w' = files w1" "store w' = store w1"
      "log w' = log w1 @ qs" "list_all is_print qs"
      unfolding quiet_def by blast
    have "log w' = log w @ (ps @ qs)" "list_all is_print (ps @ qs)"
      using a b by simp_all
    then show ?thesis using a b by metis
  qed
qed

lemma quiet_seq: "quiet m \<Longrightarrow> quiet k \<Longrightarrow> quiet (seq m k)"
  unfolding seq_def by (rule quiet_bnd)

lemma quiet_ret: "quiet (ret x)"
  by (rule quiet_silent [OF silent_ret])

lemma quiet_print: "quiet (print s)"
  by (auto simp: quiet_def print_def)

lemma quiet_print_count: "quiet (print_count s n)"
  by (auto simp: quiet_def print_count_def)

lemma quiet_prints: "quiet (prints ss)"
  by (induction ss) (auto intro: quiet_ret quiet_seq quiet_print)

lemma quiet_now: "quiet now"
  by (auto simp: quiet_def now_def draw_def)

lemma quiet_seed: "quiet (seed mt s)"
  by (auto simp: quiet_def seed_def)

lemma quiet_generate: "quiet (generate cfg)"
  unfolding generate_def Let_def
  by (intro quiet_bnd quiet_seq quiet_now quiet_prints quiet_print quiet_print_count quiet_ret
      quiet_silent [OF silent_for_loop] silent_gen_user silent_gen_listing silent_gen_lead
      silent_gen_transaction)

lemma generate_log:
  assumes "generate cfg w = (Inr (t, S, E), w')"
  shows "log w' = log w @
           [Print ''Starting Bayut Marketplace Data Generation'', Print (replicate 70 (CHR ''='')),
            Print ''STEP 1/4: Generating Users...'',
            PrintCount ''Generated users'' (int (length (users_df t))),
            Print ''STEP 2/4: Generating Listings...'',
            PrintCount ''Generated listings'' (int (length (listings_df t))),
            Print ''STEP 3/4: Generating Leads...'',
            PrintCount ''Generated leads'' (int (length (leads_df t))),
            Print ''STEP 4/4: Generating Transactions...'',
            PrintCount ''Generated transactions'' (int (length (transactions_df t)))]"
    and "files w' = files w" and "store w' = store w"
proof -
  have s: "for_loop body ns [] v = (r, v') \<Longrightarrow> (\<And>i. silent (body i)) \<Longrightarrow> log v' = log v"
    for body :: "int \<Rightarrow> 'a prog" and ns v r v'
    using silent_for_loop [of body ns "[]"] by (auto simp: silent_def)
  show "log w' = log w @
           [Print ''Starting Bayut Marketplace Data Generation'', Print (replicate 70 (CHR ''='')),
            Print ''STEP 1/4: Generating Users...'',
            PrintCount ''Generated users'' (int (length (users_df t))),
            Print ''STEP 2/4: Generating Listings...'',
            PrintCount ''Generated listings'' (int (length (listings_df t))),
            Print ''STEP 3/4: Generating Leads...'',
            PrintCount ''Generated leads'' (int (length (leads_df t))),
            Print ''STEP 4/4: Generating Transactions...'',
            PrintCount ''Generated transactions'' (int (length (transactions_df t)))]"
    using assms unfolding generate_def
    by (auto simp: bnd_Inr seq_Inr ret_iff now_eq Let_def print_eq print_count_eq
        dest!: s [OF _ silent_gen_user] s [OF _ silent_gen_listing] s [OF _ silent_gen_lead]
          s [OF _ silent_gen_transaction])
  show "files w' = files w" "store w' = store w"
    using quiet_generate [of cfg] assms by (auto simp: quiet_def)
qed

section \<open>The export, the load and the whole script\<close>

lemma script_gen_ok:
  assumes "generate cfg (snd (seed mt 42 w)) = (Inr (t, S, E), w1)"
  shows "script mt cfg ev w =
           seq (save_csv ev t)
             (seq (print ''Connecting to PostgreSQL and loading data...'')
                (try_except (load_db ev t) handler)) w1"
  using assms by (simp add: script_def seq_def bnd_def seed_def)

lemma script_gen_fail:
  assumes "generate cfg (snd (seed mt 42 w)) = (Inl e, w1)"
  shows "script mt cfg ev w = (Inl e, w1)"
  using assms by (simp add: script_def seq_def bnd_def seed_def)

lemma save_csv_ok:
  assumes "\<forall>n\<in>set csv_names. disk_ok ev n"
  shows "save_csv ev t w =
    (Inr (), w\<lparr>files := (files w)(''users.csv'' \<mapsto> users_frame t,
                 ''listings.csv'' \<mapsto> listings_frame t, ''leads.csv'' \<mapsto> leads_frame t,
                 ''transactions.csv'' \<mapsto> transactions_frame t),
               log := log w @ [Print ''Saving backup CSV files...'', WriteCsv ''users.csv'',
                 WriteCsv ''listings.csv'', WriteCsv ''leads.csv'', WriteCsv ''transactions.csv'',
                 Print ''CSV files saved successfully'']\<rparr>)"
  using assms
  by (simp add: save_csv_def seq_def bnd_def to_csv_def print_eq csv_names_def)

lemma save_csv_fail:
  assumes "\<not> (\<forall>n\<in>set csv_names. disk_ok ev n)"
  shows "\<exists>w' evs. save_csv ev t w = (Inl OSError, w') \<and> store w' = store w \<and>
           log w' = log w @ evs \<and> list_all (\<lambda>e. \<not> is_sql e) evs"
  using assms
  by (auto simp: save_csv_def seq_def bnd_def to_csv_def print_eq csv_names_def)

lemma load_paths:
  fixes ev :: env and t :: tables and w :: world
  defines "H \<equiv> map Print [replicate 70 (CHR ''=''), ''Error connecting to PostgreSQL'',
                  replicate 70 (CHR ''='')] @ [PrintError DBError] @
                map Print [''Possible issues:'',
                  ''   1. Wrong password - update DB_PASSWORD in the script'',
                  ''   2. Database doesn't exist - create 'bayut_marketplace' first'',
                  ''   3. PostgreSQL not running - check if service is running'',
                  ''Good news: CSV files are still saved!'',
                  ''   You can import them manually into PostgreSQL'']"
    and "G \<equiv> map Print [replicate 70 (CHR ''=''), ''SUCCESS! All data loaded to PostgreSQL'',
                  replicate 70 (CHR ''=''), ''Data Summary:''] @
                [PrintCount ''   Users:        records'' (int (length (users_df t))),
                 PrintCount ''   Listings:     records'' (int (length (listings_df t))),
                 PrintCount ''   Leads:        records'' (int (length (leads_df t))),
                 PrintCount ''   Transactions: records'' (int (length (transactions_df t)))] @
                map Print [''Files Created:'', ''   users.csv'', ''   listings.csv'',
                  ''   leads.csv'', ''   transactions.csv'', ''Next Steps:'',
                  ''   1. Open pgAdmin and verify data'', ''   2. Run SQL queries to analyze data'',
                  ''   3. Connect Power BI to PostgreSQL'', ''   4. Build your dashboard!'']"
    and "C \<equiv> Print ''Connecting to: localhost:5433/bayut_marketplace''"
    and "s1 \<equiv> append_rows (store w) ''users'' (rows (users_frame t))"
  defines "s2 \<equiv> append_rows s1 ''listings'' (rows (listings_frame t))"
  defines "s3 \<equiv> append_rows s2 ''leads'' (rows (leads_frame t))"
  defines "s4 \<equiv> append_rows s3 ''transactions'' (rows (transactions_frame t))"
  shows "try_except (load_db ev t) handler w =
    (Inr (),
     if \<not> engine_ok ev then w\<lparr>log := log w @ H\<rparr>
     else if \<not> db_ok ev ''users'' then w\<lparr>log := log w @ [C, ToSql ''users''] @ H\<rparr>
     else if \<not> db_ok ev ''listings'' then
       w\<lparr>log := log w @ [C, ToSql ''users'', Print ''Users table loaded'', ToSql ''listings''] @ H,
         store := s1\<rparr>
     else if \<not> db_ok ev ''leads'' then
       w\<lparr>log := log w @ [C, ToSql ''users'', Print ''Users table loaded'', ToSql ''listings'',
                Print ''Listings table loaded'', ToSql ''leads''] @ H,
         store := s2\<rparr>
     else if \<not> db_ok ev ''transactions'' then
       w\<lparr>log := log w @ [C, ToSql ''users'', Print ''Users table loaded'', ToSql ''listings'',
                Print ''Listings table loaded'', ToSql ''leads'', Print ''Leads table loaded'',
                ToSql ''transactions''] @ H,
         store := s3\<rparr>
     else
       w\<lparr>log := log w @ [C, ToSql ''users'', Print ''Users table loaded'', ToSql ''listings'',
                Print ''Listings table loaded'', ToSql ''leads'', Print ''Leads table loaded'',
                ToSql ''transactions'', Print ''Transactions table loaded''] @ G,
         store := s4\<rparr>)"
  unfolding H_def G_def C_def s1_def s2_def s3_def s4_def
  by (simp add: try_except_def load_db_def handler_def success_message_def seq_def bnd_def
      create_engine_def to_sql_def print_eq print_count_eq print_error_eq ret_def Let_def)

lemma load_fst: "fst (try_except (load_db ev t) handler w) = Inr ()"
  by (simp add: load_paths)

lemma load_files: "files (snd (try_except (load_db ev t) handler w)) = files w"
  by (simp add: load_paths)

lemma append_rows_additive:
  assumes "s n = Some old"
  shows "\<exists>new. append_rows s m rs n = Some (old @ new)"
  using assms by (cases "n = m") (auto simp: append_rows_def)

lemma load_store:
  assumes "store w n = Some old"
  shows "\<exists>new. store (snd (try_except (load_db ev t) handler w)) n = Some (old @ new)"
proof -
  let ?s = "store w"
  have 0: "\<exists>new. ?s n = Some (old @ new)" using assms by simp
  have 1: "\<exists>new. append_rows ?s a ra n = Some (old @ new)" for a ra
    using append_rows_additive [of ?s n old a ra] assms by blast
  have 2: "\<exists>new. append_rows (append_rows ?s a ra) b rb n = Some (old @ new)" for a ra b rb
  proof -
    obtain n1 where "append_rows ?s a ra n = Some (old @ n1)" using 1 by blast
    then obtain n2 where "append_rows (append_rows ?s a ra) b rb n = Some ((old @ n1) @ n2)"
      using append_rows_additive [of "append_rows ?s a ra" n "old @ n1" b rb] by blast
    then show ?thesis by simp
  qed
  have 3: "\<exists>new. append_rows (append_rows (append_rows ?s a ra) b rb) c rc n = Some (old @ new)"
    for a ra b rb c rc
  proof -
    obtain n2 where "append_rows (append_rows ?s a ra) b rb n = Some (old @ n2)" using 2 by blast
    then obtain n3 where
      "append_rows (append_rows (append_rows ?s a ra) b rb) c rc n = Some ((old @ n2) @ n3)"
      using append_rows_additive [of "append_rows (append_rows ?s a ra) b rb" n "old @ n2" c rc]
      by blast
    then show ?thesis by simp
  qed
  have 4: "\<exists>new. append_rows (append_rows (append_rows (append_rows ?s a ra) b rb) c rc) d rd n =
      Some (old @ new)" for a ra b rb c rc d rd
  proof -
    obtain n3 where "append_rows (append_rows (append_rows ?s a ra) b rb) c rc n = Some (old @ n3)"
      using 3 by blast
    then obtain n4 where
      "append_rows (append_rows (append_rows (append_rows ?s a ra) b rb) c rc) d rd n =
         Some ((old @ n3) @ n4)"
      using append_rows_additive [of "append_rows (append_rows (append_rows ?s a ra) b rb) c rc"
          n "old @ n3" d rd]
      by blast
    then show ?thesis by simp
  qed
  show ?thesis
    using 0 1 2 3 4 by (simp add: load_paths)
qed

lemma banner_neq: "replicate 70 (CHR ''='') \<noteq> ''Error connecting to PostgreSQL''"
proof
  assume "replicate 70 (CHR ''='') = ''Error connecting to PostgreSQL''"
  then have "length (replicate 70 (CHR ''='')) = length ''Error connecting to PostgreSQL''"
    by (rule arg_cong)
  then show False by simp
qed

lemma load_log:
  "\<exists>evs. log (snd (try_except (load_db ev t) handler w)) = log w @ evs \<and> evs \<noteq> [] \<and>
     (\<forall>f. WriteCsv f \<notin> set evs) \<and>
     (\<forall>n. count_list evs (ToSql n) \<le> 1) \<and>
     count_list evs (Print ''Error connecting to PostgreSQL'') = (if store_fails ev then 1 else 0) \<and>
     (\<forall>n. ToSql n \<in> set evs \<and> \<not> db_ok ev n \<longrightarrow> last (filter is_sql evs) = ToSql n) \<and>
     (\<not> store_fails ev \<longrightarrow> filter is_sql evs = map ToSql table_names) \<and>
     last evs = (if store_fails ev then Print ''   You can import them manually into PostgreSQL''
                 else Print ''   4. Build your dashboard!'')"
proof -
  consider (a) "\<not> engine_ok ev"
    | (b) "engine_ok ev" "\<not> db_ok ev ''users''"
    | (c) "engine_ok ev" "db_ok ev ''users''" "\<not> db_ok ev ''listings''"
    | (d) "engine_ok ev" "db_ok ev ''users''" "db_ok ev ''listings''" "\<not> db_ok ev ''leads''"
    | (e) "engine_ok ev" "db_ok ev ''users''" "db_ok ev ''listings''" "db_ok ev ''leads''"
        "\<not> db_ok ev ''transactions''"
    | (f) "engine_ok ev" "db_ok ev ''users''" "db_ok ev ''listings''" "db_ok ev ''leads''"
        "db_ok ev ''transactions''"
    by blast
  then show ?thesis
  proof cases
    case a
    then show ?thesis by (simp add: load_paths banner_neq store_fails_def)
  next
    case b
    then show ?thesis by (simp add: load_paths banner_neq store_fails_def table_names_def)
  next
    case c
    then show ?thesis by (simp add: load_paths banner_neq store_fails_def table_names_def) blast
  next
    case d
    then show ?thesis by (simp add: load_paths banner_neq store_fails_def table_names_def) blast
  next
    case e
    then show ?thesis by (simp add: load_paths banner_neq store_fails_def table_names_def) blast
  next
    case f
    then show ?thesis by (simp add: load_paths banner_neq store_fails_def table_names_def) auto
  qed
qed

lemma script_ok:
  assumes "generate cfg (snd (seed mt 42 w)) = (Inr (t, S, E), w1)"
    and "\<forall>n\<in>set csv_names. disk_ok ev n"
  shows "script mt cfg ev w =
    try_except (load_db ev t) handler
      (w1\<lparr>files := (files w1)(''users.csv'' \<mapsto> users_frame t,
                 ''listings.csv'' \<mapsto> listings_frame t, ''leads.csv'' \<mapsto> leads_frame t,
                 ''transactions.csv'' \<mapsto> transactions_frame t),
          log := log w1 @ [Print ''Saving backup CSV files...'', WriteCsv ''users.csv'',
                 WriteCsv ''listings.csv'', WriteCsv ''leads.csv'', WriteCsv ''transactions.csv'',
                 Print ''CSV files saved successfully'',
                 Print ''Connecting to PostgreSQL and loading data...'']\<rparr>)"
  by (simp add: script_gen_ok [OF assms(1)] save_csv_ok [OF assms(2)] seq_def bnd_def print_eq)

lemma script_ok_files:
  assumes "generate cfg (snd (seed mt 42 w)) = (Inr (t, S, E), w1)"
    and "\<forall>n\<in>set csv_names. disk_ok ev n"
  shows "files (snd (script mt cfg ev w)) =
           (files w)(''users.csv'' \<mapsto> users_frame t, ''listings.csv'' \<mapsto> listings_frame t,
              ''leads.csv'' \<mapsto> leads_frame t, ''transactions.csv'' \<mapsto> transactions_frame t)"
  using generate_log(2) [OF assms(1)]
  by (simp add: script_ok [OF assms] load_files seed_def)

lemma script_ok_log:
  assumes "generate cfg (snd (seed mt 42 w)) = (Inr (t, S, E), w1)"
    and "\<forall>n\<in>set csv_names. disk_ok ev n"
  shows "\<exists>evs. log (snd (script mt cfg ev w)) = log w @
           [Print ''Starting Bayut Marketplace Data Generation'', Print (replicate 70 (CHR ''='')),
            Print ''STEP 1/4: Generating Users...'',
            PrintCount ''Generated users'' (int (length (users_df t))),
            Print ''STEP 2/4: Generating Listings...'',
            PrintCount ''Generated listings'' (int (length (listings_df t))),
            Print ''STEP 3/4: Generating Leads...'',
            PrintCount ''Generated leads'' (int (length (leads_df t))),
            Print ''STEP 4/4: Generating Transactions...'',
            PrintCount ''Generated transactions'' (int (length (transactions_df t))),
            Print ''Saving backup CSV files...'', WriteCsv ''users.csv'',
            WriteCsv ''listings.csv'', WriteCsv ''leads.csv'', WriteCsv ''transactions.csv'',
            Print ''CSV files saved successfully'',
            Print ''Connecting to PostgreSQL and loading data...''] @ evs \<and> evs \<noteq> [] \<and>
     (\<forall>f. WriteCsv f \<notin> set evs) \<and>
     (\<forall>n. count_list evs (ToSql n) \<le> 1) \<and>
     count_list evs (Print ''Error connecting to PostgreSQL'') = (if store_fails ev then 1 else 0) \<and>
     (\<forall>n. ToSql n \<in> set evs \<and> \<not> db_ok ev n \<longrightarrow> last (filter is_sql evs) = ToSql n) \<and>
     (\<not> store_fails ev \<longrightarrow> filter is_sql evs = map ToSql table_names) \<and>
     last evs = (if store_fails ev then Print ''   You can import them manually into PostgreSQL''
                 else Print ''   4. Build your dashboard!'')"
proof -
  let ?w2 = "w1\<lparr>files := (files w1)(''users.csv'' \<mapsto> users_frame t,
                 ''listings.csv'' \<mapsto> listings_frame t, ''leads.csv'' \<mapsto> leads_frame t,
                 ''transactions.csv'' \<mapsto> transactions_frame t),
          log := log w1 @ [Print ''Saving backup CSV files...'', WriteCsv ''users.csv'',
                 WriteCsv ''listings.csv'', WriteCsv ''leads.csv'', WriteCsv ''transactions.csv'',
                 Print ''CSV files saved successfully'',
                 Print ''Connecting to PostgreSQL and loading data...'']\<rparr>"
  from load_log [of ev t ?w2] obtain evs where
    e: "log (snd (try_except (load_db ev t) handler ?w2)) = log ?w2 @ evs" and
    p: "evs \<noteq> [] \<and>
     (\<forall>f. WriteCsv f \<notin> set evs) \<and>
     (\<forall>n. count_list evs (ToSql n) \<le> 1) \<and>
     count_list evs (Print ''Error connecting to PostgreSQL'') = (if store_fails ev then 1 else 0) \<and>
     (\<forall>n. ToSql n \<in> set evs \<and> \<not> db_ok ev n \<longrightarrow> last (filter is_sql evs) = ToSql n) \<and>
     (\<not> store_fails ev \<longrightarrow> filter is_sql evs = map ToSql table_names) \<and>
     last evs = (if store_fails ev then Print ''   You can import them manually into PostgreSQL''
                 else Print ''   4. Build your dashboard!'')"
    by blast
  have "log (snd (script mt cfg ev w)) = log ?w2 @ evs"
    using e by (simp only: script_ok [OF assms])
  then show ?thesis
    using p generate_log(1) [OF assms(1)] by (intro exI [of _ evs]) (simp add: seed_def)
qed

lemma script_ok_store:
  assumes "generate cfg (snd (seed mt 42 w)) = (Inr (t, S, E), w1)"
    and "\<forall>n\<in>set csv_names. disk_ok ev n"
    and "store w n = Some old"
  shows "\<exists>new. store (snd (script mt cfg ev w)) n = Some (old @ new)"
proof -
  have "store w1 n = Some old"
    using generate_log(3) [OF assms(1)] assms(3) by (simp add: seed_def)
  then show ?thesis
    unfolding script_ok [OF assms(1,2)] by (intro load_store) simp
qed

lemma seeded_clock: "clock_ok (w\<lparr>py := g\<rparr>) = clock_ok w"
  by (simp add: clock_ok_def)

lemma script_generates:
  assumes "valid_config cfg" and "clock_ok w"
  shows "\<exists>t S E w1. generate cfg (snd (seed mt 42 w)) = (Inr (t, S, E), w1)"
  using generate_total [OF assms(1), of "snd (seed mt 42 w)"] assms(2)
  by (simp add: seeded_clock seed_def)

section \<open>Properties of the generated tables\<close>

lemma valid_default: "valid_config default_config"
  by (simp add: valid_config_def default_config_def)

lemma clock_ok_world0: "clock_ok world0"
  by (simp add: clock_ok_def world0_def date_of_def timedelta_def)

lemma generate_default:
  "\<exists>t S E w'. generate default_config world0 = (Inr (t, S, E), w')"
  using generate_total [OF valid_default clock_ok_world0] .

text \<open>
  C1. A lead refers to exactly one listing of the listings table, and its \<open>lead_date\<close> is
  not before that listing's \<open>created_date\<close> and not after the date of \<open>END_DATE\<close>, the
  second reading of the clock.
\<close>

theorem lead_date_in_window:
  assumes "generate cfg w = (Inr (t, START_DATE, END_DATE), w')"
  shows "END_DATE = feed (clk w) (Suc (pos (clk w))) \<and>
    (\<forall>d\<in>set (leads_df t). \<exists>l\<in>set (listings_df t).
       listing_id l = ld_listing_id d \<and>
       (\<forall>l'\<in>set (listings_df t). listing_id l' = ld_listing_id d \<longrightarrow> l' = l) \<and>
       created_date l \<le> lead_date d \<and> lead_date d \<le> date_of END_DATE)"
proof (intro conjI ballI)
  show "END_DATE = feed (clk w) (Suc (pos (clk w)))" using generate_Inr(2) [OF assms] .
next
  fix d assume "d \<in> set (leads_df t)"
  then obtain i v v' where g: "gen_lead cfg (listings_df t) END_DATE i v = (Inr d, v')"
    using list_all2_each [OF leads_spec [OF assms]] by blast
  obtain l ls where f: "filter (\<lambda>l. listing_id l = ld_listing_id d) (listings_df t) = l # ls"
    and c: "created_date l \<le> lead_date d"
    using gen_lead_Inr(6) [OF g] by blast
  have "l \<in> set (filter (\<lambda>l. listing_id l = ld_listing_id d) (listings_df t))"
    by (simp add: f)
  then have l: "l \<in> set (listings_df t)" "listing_id l = ld_listing_id d" by auto
  have dist: "distinct (map listing_id (listings_df t))"
    by (simp add: listing_ids [OF assms])
  have u: "l' = l" if "l' \<in> set (listings_df t)" "listing_id l' = ld_listing_id d" for l'
  proof -
    have "filter (\<lambda>x. listing_id x = listing_id l') (listings_df t) = [l']"
      using dist that(1) by (rule filter_unique)
    then show ?thesis using f that(2) by simp
  qed
  show "\<exists>l\<in>set (listings_df t). listing_id l = ld_listing_id d \<and>
       (\<forall>l'\<in>set (listings_df t). listing_id l' = ld_listing_id d \<longrightarrow> l' = l) \<and>
       created_date l \<le> lead_date d \<and> lead_date d \<le> date_of END_DATE"
    using l c u gen_lead_Inr(7) [OF g] by blast
qed

theorem lead_date_in_window_witness:
  "\<exists>t S E w'. generate default_config world0 = (Inr (t, S, E), w') \<and>
     E = 1762000001 \<and>
     (\<forall>d\<in>set (leads_df t). \<exists>l\<in>set (listings_df t).
        listing_id l = ld_listing_id d \<and>
        (\<forall>l'\<in>set (listings_df t). listing_id l' = ld_listing_id d \<longrightarrow> l' = l) \<and>
        created_date l \<le> lead_date d \<and> lead_date d \<le> 20393)"
proof -
  obtain t S E w' where g: "generate default_config world0 = (Inr (t, S, E), w')"
    using generate_default by blast
  have e: "E = 1762000001" using generate_Inr(2) [OF g] by (simp add: world0_def)
  have "date_of E = 20393" unfolding e by (simp add: date_of_def)
  then show ?thesis using lead_date_in_window [OF g] g e by auto
qed

lemma fl_07: "fl (fl (7 / 10)) = fl (7 / 10)"
  by code_simp

lemma fl_15: "fl (3 / 2) = 3 / 2"
  by code_simp

lemma fl_width: "fl (3 / 2 - fl (7 / 10)) = 3 / 2 - fl (7 / 10)"
  by code_simp

lemma fl_07_bounds: "1 / 2 \<le> fl (7 / 10)" "fl (7 / 10) \<le> 3 / 2"
proof -
  show "1 / 2 \<le> fl (7 / 10)" by (rule fl_ge [OF _ _ fl_half]) simp_all
  show "fl (7 / 10) \<le> 3 / 2" by (rule fl_le [OF _ _ fl_15]) simp_all
qed

lemma price_factor_range:
  assumes "uniform (fl (7 / 10)) (3 / 2) g = Inr (u, g')"
  shows "fl (7 / 10) \<le> u" and "u \<le> 3 / 2"
proof -
  have z: "0 \<le> fl (7 / 10)" using fl_07_bounds(1) by linarith
  show "fl (7 / 10) \<le> u"
    using uniform_bounds(1) [OF assms z fl_07_bounds(2) fl_07 fl_15 fl_width] .
  show "u \<le> 3 / 2"
    using uniform_bounds(2) [OF assms z fl_07_bounds(2) fl_07 fl_15 fl_width] .
qed

lemma fl_400000: "fl 400000 = 400000"
  by code_simp

lemma fl_200000: "fl 200000 = 200000"
  by code_simp

lemma price_lower:
  assumes "800000 \<le> b" and "1 / 2 \<le> m" and "1 / 2 \<le> u"
  shows "200000 \<le> py_round2 (fl (fl (of_int b * m) * u))"
proof -
  have b: "(800000::rat) \<le> of_int b" using assms(1) by linarith
  have "800000 * (1 / 2) \<le> of_int b * m"
    using b assms(2) by (intro mult_mono) simp_all
  then have "400000 \<le> of_int b * m" by simp
  then have p: "400000 \<le> fl (of_int b * m)" by (intro fl_ge fl_400000) simp_all
  have "400000 * (1 / 2) \<le> fl (of_int b * m) * u"
    using p assms(3) by (intro mult_mono) simp_all
  then have "200000 \<le> fl (of_int b * m) * u" by simp
  then have "200000 \<le> fl (fl (of_int b * m) * u)" by (intro fl_ge fl_200000) simp_all
  then show ?thesis using py_round2_lower [of 200000 "fl (fl (of_int b * m) * u)"] fl_200000
    by simp
qed

text \<open>
  C3. The price of a listing is \<^verbatim>\<open>round(base_price * emirate_multiplier * u, 2)\<close>:
  \<open>b\<close> and \<open>m\<close> are the entries of the two lookup tables for the listing's category and
  emirate, \<open>u\<close> is the value of \<^verbatim>\<open>random.uniform(0.7, 1.5)\<close> and lies between the floats
  \<^verbatim>\<open>0.7\<close> and \<^verbatim>\<open>1.5\<close>, the products are float products taken from the left, and the
  result is the float nearest to a number of hundredths.
\<close>

theorem listing_price_formula:
  assumes "generate cfg w = (Inr (t, START_DATE, END_DATE), w')"
  shows "\<forall>l\<in>set (listings_df t). \<exists>b m u g g'.
           map_of base_price_table (category l) = Some b \<and>
           map_of emirate_multiplier_table (l_emirate l) = Some m \<and>
           uniform (fl (7 / 10)) (3 / 2) g = Inr (u, g') \<and>
           fl (7 / 10) \<le> u \<and> u \<le> 3 / 2 \<and>
           price l = py_round2 (fl (fl (of_int b * m) * u)) \<and>
           (\<exists>cents. price l = fl (of_int cents / 100))"
proof
  fix l assume "l \<in> set (listings_df t)"
  then obtain i v v' where g: "gen_listing cfg START_DATE END_DATE i v = (Inr l, v')"
    using list_all2_each [OF listings_spec [OF assms]] by blast
  obtain b m u g g' where b: "map_of base_price_table (category l) = Some b"
    and m: "map_of emirate_multiplier_table (l_emirate l) = Some m"
    and u: "uniform (fl (7 / 10)) (3 / 2) g = Inr (u, g')"
    and p: "price l = py_round2 (fl (fl (of_int b * m) * u))"
    using gen_listing_Inr(8) [OF g] by blast
  have "\<exists>cents. price l = fl (of_int cents / 100)"
    unfolding p py_round2_def by blast
  then show "\<exists>b m u g g'.
           map_of base_price_table (category l) = Some b \<and>
           map_of emirate_multiplier_table (l_emirate l) = Some m \<and>
           uniform (fl (7 / 10)) (3 / 2) g = Inr (u, g') \<and>
           fl (7 / 10) \<le> u \<and> u \<le> 3 / 2 \<and>
           price l = py_round2 (fl (fl (of_int b * m) * u)) \<and>
           (\<exists>cents. price l = fl (of_int cents / 100))"
    using b m u p price_factor_range [OF u] by blast
qed

theorem listing_price_formula_witness:
  "\<exists>t S E w'. generate default_config world0 = (Inr (t, S, E), w') \<and>
     (\<forall>l\<in>set (listings_df t). \<exists>b m u g g'.
           map_of base_price_table (category l) = Some b \<and>
           map_of emirate_multiplier_table (l_emirate l) = Some m \<and>
           uniform (fl (7 / 10)) (3 / 2) g = Inr (u, g') \<and>
           fl (7 / 10) \<le> u \<and> u \<le> 3 / 2 \<and>
           price l = py_round2 (fl (fl (of_int b * m) * u)) \<and>
           (\<exists>cents. price l = fl (of_int cents / 100)))"
proof -
  obtain t S E w' where g: "generate default_config world0 = (Inr (t, S, E), w')"
    using generate_default by blast
  show ?thesis using listing_price_formula [OF g] g by blast
qed

text \<open>
  C4. The amount of a transaction of type \<^verbatim>\<open>'subscription'\<close> is one of the integers 500,
  1000, 2000 and 5000; the amount of a transaction of type \<^verbatim>\<open>'featured_listing'\<close> is a
  float which, after \<^verbatim>\<open>round(amount, 2)\<close>, lies between 100 and 500.
\<close>

theorem transaction_amount_by_type:
  assumes "generate cfg w = (Inr (t, START_DATE, END_DATE), w')"
  shows "\<forall>x\<in>set (transactions_df t).
           (transaction_type x = ''subscription'' \<longrightarrow>
              amount x \<in> {PyInt 500, PyInt 1000, PyInt 2000, PyInt 5000}) \<and>
           (transaction_type x = ''featured_listing'' \<longrightarrow>
              (\<exists>a. amount x = PyFloat a \<and> 100 \<le> a \<and> a \<le> 500))"
proof
  fix x assume "x \<in> set (transactions_df t)"
  then obtain i v v' where g: "gen_transaction cfg START_DATE END_DATE i v = (Inr x, v')"
    using list_all2_each [OF transactions_spec [OF assms]] by blast
  obtain a u u' where a: "gen_amount (transaction_type x) u = (Inr a, u')"
    and r: "amount x = round2 a"
    using gen_transaction_Inr(7) [OF g] by blast
  have s: "amount x \<in> {PyInt 500, PyInt 1000, PyInt 2000, PyInt 5000}"
    if "transaction_type x = ''subscription''"
    using gen_amount_Inr(1) [OF a that] r by auto
  have f: "\<exists>y. amount x = PyFloat y \<and> 100 \<le> y \<and> y \<le> 500"
    if "transaction_type x = ''featured_listing''"
  proof -
    have "transaction_type x \<noteq> ''subscription''" using that by simp
    then obtain y k k' where y: "uniform 100 500 k = Inr (y, k')" and ay: "a = PyFloat y"
      using gen_amount_Inr(2) [OF a] by blast
    show ?thesis using featured_amount_range [OF y] r ay by simp
  qed
  show "(transaction_type x = ''subscription'' \<longrightarrow>
              amount x \<in> {PyInt 500, PyInt 1000, PyInt 2000, PyInt 5000}) \<and>
           (transaction_type x = ''featured_listing'' \<longrightarrow>
              (\<exists>a. amount x = PyFloat a \<and> 100 \<le> a \<and> a \<le> 500))"
    using s f by blast
qed

theorem transaction_amount_by_type_witness:
  "\<exists>t S E w'. generate default_config world0 = (Inr (t, S, E), w') \<and>
     (\<forall>x\<in>set (transactions_df t).
           (transaction_type x = ''subscription'' \<longrightarrow>
              amount x \<in> {PyInt 500, PyInt 1000, PyInt 2000, PyInt 5000}) \<and>
           (transaction_type x = ''featured_listing'' \<longrightarrow>
              (\<exists>a. amount x = PyFloat a \<and> 100 \<le> a \<and> a \<le> 500)))"
proof -
  obtain t S E w' where g: "generate default_config world0 = (Inr (t, S, E), w')"
    using generate_default by blast
  show ?thesis using transaction_amount_by_type [OF g] g by blast
qed

text \<open>
  C6. The price of a listing is positive (it is at least 200000) and the listing's
  \<^verbatim>\<open>'user_id'\<close> lies between 1 and \<open>NUM_USERS\<close>.
\<close>

theorem listing_price_and_owner:
  assumes "generate cfg w = (Inr (t, START_DATE, END_DATE), w')"
  shows "\<forall>l\<in>set (listings_df t).
           0 < price l \<and> 200000 \<le> price l \<and> 1 \<le> l_user_id l \<and> l_user_id l \<le> NUM_USERS cfg"
proof
  fix l assume "l \<in> set (listings_df t)"
  then obtain i v v' where g: "gen_listing cfg START_DATE END_DATE i v = (Inr l, v')"
    using list_all2_each [OF listings_spec [OF assms]] by blast
  obtain b m u k k' where b: "map_of base_price_table (category l) = Some b"
    and m: "map_of emirate_multiplier_table (l_emirate l) = Some m"
    and u: "uniform (fl (7 / 10)) (3 / 2) k = Inr (u, k')"
    and p: "price l = py_round2 (fl (fl (of_int b * m) * u))"
    using gen_listing_Inr(8) [OF g] by blast
  have b8: "800000 \<le> b" using base_price_defined [OF gen_listing_Inr(4) [OF g]] b by auto
  have m2: "1 / 2 \<le> m" using multiplier_defined [OF gen_listing_Inr(5) [OF g]] m by auto
  have u2: "1 / 2 \<le> u" using price_factor_range(1) [OF u] fl_07_bounds(1) by linarith
  have "200000 \<le> price l" unfolding p using price_lower [OF b8 m2 u2] .
  then show "0 < price l \<and> 200000 \<le> price l \<and> 1 \<le> l_user_id l \<and> l_user_id l \<le> NUM_USERS cfg"
    using gen_listing_Inr(2,3) [OF g] by simp
qed

theorem listing_price_and_owner_witness:
  "\<exists>t S E w'. generate default_config world0 = (Inr (t, S, E), w') \<and>
     (\<forall>l\<in>set (listings_df t).
           0 < price l \<and> 200000 \<le> price l \<and> 1 \<le> l_user_id l \<and> l_user_id l \<le> 5000)"
proof -
  obtain t S E w' where g: "generate default_config world0 = (Inr (t, S, E), w')"
    using generate_default by blast
  show ?thesis using listing_price_and_owner [OF g] g by (auto simp: default_config_def)
qed

lemma ids_of_loop:
  assumes "list_all2 (\<lambda>i x. \<exists>v v'. body i v = (Inr x, v')) ns xs"
    and "\<And>i v x v'. body i v = (Inr x, v') \<Longrightarrow> key x = i"
  shows "map key xs = ns"
  using assms(1) by (rule list_all2_key) (auto dest: assms(2))

lemma upto_facts:
  assumes "map key xs = [1..n]"
  shows "distinct (map key xs)" and "set (map key xs) = {1..n}" and "length xs = nat n"
proof -
  show "distinct (map key xs)" "set (map key xs) = {1..n}" by (simp_all add: assms)
  have "length (map key xs) = length [1..n]" by (simp only: assms)
  then show "length xs = nat n" by simp
qed

text \<open>
  C5. In each table the identifiers, read in row order, are \<open>1, 2, ..., N\<close> for the
  table's configured count \<open>N\<close>: no identifier is missing or repeated, and the table has
  \<open>N\<close> rows. With the counts of the script that is 5000 users, 8000 listings, 15000
  leads and 2000 transactions.
\<close>

theorem table_ids_sequential:
  assumes "generate cfg w = (Inr (t, START_DATE, END_DATE), w')"
  shows "map user_id (users_df t) = [1..NUM_USERS cfg] \<and>
         map listing_id (listings_df t) = [1..NUM_LISTINGS cfg] \<and>
         map lead_id (leads_df t) = [1..NUM_LEADS cfg] \<and>
         map transaction_id (transactions_df t) = [1..NUM_TRANSACTIONS cfg] \<and>
         distinct (map user_id (users_df t)) \<and>
         distinct (map listing_id (listings_df t)) \<and>
         distinct (map lead_id (leads_df t)) \<and>
         distinct (map transaction_id (transactions_df t)) \<and>
         set (map user_id (users_df t)) = {1..NUM_USERS cfg} \<and>
         set (map listing_id (listings_df t)) = {1..NUM_LISTINGS cfg} \<and>
         set (map lead_id (leads_df t)) = {1..NUM_LEADS cfg} \<and>
         set (map transaction_id (transactions_df t)) = {1..NUM_TRANSACTIONS cfg} \<and>
         length (users_df t) = nat (NUM_USERS cfg) \<and>
         length (listings_df t) = nat (NUM_LISTINGS cfg) \<and>
         length (leads_df t) = nat (NUM_LEADS cfg) \<and>
         length (transactions_df t) = nat (NUM_TRANSACTIONS cfg) \<and>
         (cfg = default_config \<longrightarrow>
            length (users_df t) = 5000 \<and> length (listings_df t) = 8000 \<and>
            length (leads_df t) = 15000 \<and> length (transactions_df t) = 2000)"
proof -
  have u: "map user_id (users_df t) = [1..NUM_USERS cfg]"
    using users_spec [OF assms] by (rule ids_of_loop) (rule gen_user_Inr(1))
  have l: "map listing_id (listings_df t) = [1..NUM_LISTINGS cfg]"
    using listing_ids [OF assms] .
  have d: "map lead_id (leads_df t) = [1..NUM_LEADS cfg]"
    using leads_spec [OF assms] by (rule ids_of_loop) (rule gen_lead_Inr(1))
  have x: "map transaction_id (transactions_df t) = [1..NUM_TRANSACTIONS cfg]"
    using transactions_spec [OF assms] by (rule ids_of_loop) (rule gen_transaction_Inr(1))
  have n: "cfg = default_config \<longrightarrow>
            length (users_df t) = 5000 \<and> length (listings_df t) = 8000 \<and>
            length (leads_df t) = 15000 \<and> length (transactions_df t) = 2000"
    using upto_facts(3) [OF u] upto_facts(3) [OF l] upto_facts(3) [OF d] upto_facts(3) [OF x]
    by (simp add: default_config_def)
  show ?thesis
    using u l d x n upto_facts [OF u] upto_facts [OF l] upto_facts [OF d] upto_facts [OF x]
    by (intro conjI) assumption+
qed

theorem table_ids_sequential_witness:
  "\<exists>t S E w'. generate default_config world0 = (Inr (t, S, E), w') \<and>
     map user_id (users_df t) = [1..5000] \<and>
     map listing_id (listings_df t) = [1..8000] \<and>
     map lead_id (leads_df t) = [1..15000] \<and>
     map transaction_id (transactions_df t) = [1..2000] \<and>
     length (users_df t) = 5000 \<and> length (listings_df t) = 8000 \<and>
     length (leads_df t) = 15000 \<and> length (transactions_df t) = 2000"
proof -
  obtain t S E w' where g: "generate default_config world0 = (Inr (t, S, E), w')"
    using generate_default by blast
  have "map user_id (users_df t) = [1..5000] \<and>
     map listing_id (listings_df t) = [1..8000] \<and>
     map lead_id (leads_df t) = [1..15000] \<and>
     map transaction_id (transactions_df t) = [1..2000] \<and>
     length (users_df t) = 5000 \<and> length (listings_df t) = 8000 \<and>
     length (leads_df t) = 15000 \<and> length (transactions_df t) = 2000"
    using table_ids_sequential [OF g] by (simp add: default_config_def)
  then show ?thesis using g by blast
qed

text \<open>
  C10. Once the listings loop has run, the lookup of the lead loop cannot fail: for an
  identifier \<open>lid\<close> returned by \<^verbatim>\<open>random.randint(1, NUM_LISTINGS)\<close> the filter
  \<^verbatim>\<open>listings_df[listings_df['listing_id'] == lid]\<close> keeps exactly one row, \<^verbatim>\<open>.values[0]\<close>
  returns that row's \<open>created_date\<close>, and no iteration of the lead loop raises
  \<^verbatim>\<open>IndexError\<close>.
\<close>

theorem listing_lookup_total:
  assumes "for_loop (gen_listing cfg S E) [1..NUM_LISTINGS cfg] [] w = (Inr listings, w')"
    and "randint 1 (NUM_LISTINGS cfg) g = Inr (lid, g')"
  shows "(\<exists>l. l \<in> set listings \<and> filter (\<lambda>l. listing_id l = lid) listings = [l] \<and>
            first_value (map created_date (filter (\<lambda>l. listing_id l = lid) listings)) v =
              (Inr (created_date l), v)) \<and>
         fst (gen_lead cfg listings E' i v) \<noteq> Inl IndexError"
proof
  have ids: "map listing_id listings = [1..NUM_LISTINGS cfg]"
    using listings_loop(1) [OF assms(1)] .
  have "1 \<le> lid \<and> lid \<le> NUM_LISTINGS cfg" using randint_range [OF assms(2)] .
  then obtain l where "l \<in> set listings" "filter (\<lambda>l. listing_id l = lid) listings = [l]"
    using lookup_by_id [OF ids, of lid] by auto
  then show "\<exists>l. l \<in> set listings \<and> filter (\<lambda>l. listing_id l = lid) listings = [l] \<and>
            first_value (map created_date (filter (\<lambda>l. listing_id l = lid) listings)) v =
              (Inr (created_date l), v)"
    by (auto simp: first_value_def)
  show "fst (gen_lead cfg listings E' i v) \<noteq> Inl IndexError"
  proof
    assume h: "fst (gen_lead cfg listings E' i v) = Inl IndexError"
    obtain v' where "gen_lead cfg listings E' i v = (Inl IndexError, v')"
      using h by (cases "gen_lead cfg listings E' i v") auto
    then have "IndexError = ValueError" using gen_lead_error [OF ids] by blast
    then show False by simp
  qed
qed

theorem listing_lookup_total_witness:
  "\<exists>listings w'.
     for_loop (gen_listing default_config 1698928000 1762000001) [1..8000] [] world0 =
       (Inr listings, w') \<and>
     randint 1 8000 (py world0) = Inr (1, (py world0)\<lparr>pos := 1\<rparr>) \<and>
     (\<exists>l. l \<in> set listings \<and> filter (\<lambda>l. listing_id l = 1) listings = [l] \<and>
          first_value (map created_date (filter (\<lambda>l. listing_id l = 1) listings)) world0 =
            (Inr (created_date l), world0)) \<and>
     fst (gen_lead default_config listings 1762000001 1 world0) \<noteq> Inl IndexError"
proof -
  have win: "date_of 1698928000 \<le> date_of 1762000001" by (simp add: date_of_def)
  have nu: "1 \<le> NUM_USERS default_config" by (simp add: default_config_def)
  have n: "NUM_LISTINGS default_config = 8000" by (simp add: default_config_def)
  obtain listings w' where
    f: "for_loop (gen_listing default_config 1698928000 1762000001)
          [1..NUM_LISTINGS default_config] [] world0 = (Inr listings, w')"
    using for_loop_total [of "[1..NUM_LISTINGS default_config]"
        "gen_listing default_config 1698928000 1762000001" "[]" world0]
      gen_listing_total [OF win nu] by blast
  have r: "randint 1 (NUM_LISTINGS default_config) (py world0) = Inr (1, (py world0)\<lparr>pos := 1\<rparr>)"
    by (simp add: randint_def draw_def world0_def n)
  show ?thesis
    using listing_lookup_total [OF f r, of world0 1762000001 1] f r by (auto simp: n)
qed

section \<open>Properties of the export and of the load\<close>

text \<open>
  C9. When the tables have been generated and the four files written, the script returns
  normally whatever the store does: the exit code is 0 on the success path and on the
  store-failure path. No table is tried twice, a failed attempt is the last attempt on
  the store, the handler's banner is printed once when the store fails and not at all
  when it does not, and the last thing the process does is print the final line of the
  summary or of the advice.
\<close>

theorem store_failure_contained:
  assumes "valid_config cfg" and "clock_ok w" and "\<forall>n\<in>set csv_names. disk_ok ev n"
    and "log w = []"
  shows "fst (script mt cfg ev w) = Inr () \<and> exit_code (script mt cfg ev w) = 0 \<and>
    (\<forall>n. count_list (log (snd (script mt cfg ev w))) (ToSql n) \<le> 1) \<and>
    count_list (log (snd (script mt cfg ev w))) (Print ''Error connecting to PostgreSQL'') =
      (if store_fails ev then 1 else 0) \<and>
    (\<forall>n. ToSql n \<in> set (log (snd (script mt cfg ev w))) \<and> \<not> db_ok ev n \<longrightarrow>
         last (filter is_sql (log (snd (script mt cfg ev w)))) = ToSql n) \<and>
    last (log (snd (script mt cfg ev w))) =
      (if store_fails ev then Print ''   You can import them manually into PostgreSQL''
       else Print ''   4. Build your dashboard!'')"
proof -
  obtain t S E w1 where g: "generate cfg (snd (seed mt 42 w)) = (Inr (t, S, E), w1)"
    using script_generates [OF assms(1,2)] by blast
  have r: "fst (script mt cfg ev w) = Inr ()"
    by (simp add: script_ok [OF g assms(3)] load_fst)
  then have x: "exit_code (script mt cfg ev w) = 0" by (simp add: exit_code_def)
  obtain evs where l: "log (snd (script mt cfg ev w)) = log w @
           [Print ''Starting Bayut Marketplace Data Generation'', Print (replicate 70 (CHR ''='')),
            Print ''STEP 1/4: Generating Users...'',
            PrintCount ''Generated users'' (int (length (users_df t))),
            Print ''STEP 2/4: Generating Listings...'',
            PrintCount ''Generated listings'' (int (length (listings_df t))),
            Print ''STEP 3/4: Generating Leads...'',
            PrintCount ''Generated leads'' (int (length (leads_df t))),
            Print ''STEP 4/4: Generating Transactions...'',
            PrintCount ''Generated transactions'' (int (length (transactions_df t))),
            Print ''Saving backup CSV files...'', WriteCsv ''users.csv'',
            WriteCsv ''listings.csv'', WriteCsv ''leads.csv'', WriteCsv ''transactions.csv'',
            Print ''CSV files saved successfully'',
            Print ''Connecting to PostgreSQL and loading data...''] @ evs"
    and ne: "evs \<noteq> []"
    and c: "\<forall>n. count_list evs (ToSql n) \<le> 1"
    and b: "count_list evs (Print ''Error connecting to PostgreSQL'') =
              (if store_fails ev then 1 else 0)"
    and f: "\<forall>n. ToSql n \<in> set evs \<and> \<not> db_ok ev n \<longrightarrow> last (filter is_sql evs) = ToSql n"
    and e: "last evs = (if store_fails ev then Print ''   You can import them manually into PostgreSQL''
                 else Print ''   4. Build your dashboard!'')"
    using script_ok_log [OF g assms(3)] by blast
  have 1: "\<forall>n. count_list (log (snd (script mt cfg ev w))) (ToSql n) \<le> 1"
    using c by (simp add: l assms(4))
  have 2: "count_list (log (snd (script mt cfg ev w))) (Print ''Error connecting to PostgreSQL'') =
      (if store_fails ev then 1 else 0)"
    using b by (simp add: l assms(4) banner_neq)
  have 3: "\<forall>n. ToSql n \<in> set (log (snd (script mt cfg ev w))) \<and> \<not> db_ok ev n \<longrightarrow>
         last (filter is_sql (log (snd (script mt cfg ev w)))) = ToSql n"
    using f by (simp add: l assms(4))
  have 4: "last (log (snd (script mt cfg ev w))) =
      (if store_fails ev then Print ''   You can import them manually into PostgreSQL''
       else Print ''   4. Build your dashboard!'')"
    using e ne by (simp add: l assms(4))
  show ?thesis using r x 1 2 3 4 by (intro conjI) assumption+
qed

lemma world0_ready: "valid_config default_config" "clock_ok world0" "log world0 = []"
  "\<forall>n\<in>set csv_names. disk_ok env_ok n" "\<forall>n\<in>set csv_names. disk_ok env_down n"
  "store_fails env_down" "\<not> store_fails env_ok"
proof -
  show "valid_config default_config" by (rule valid_default)
  show "clock_ok world0" by (rule clock_ok_world0)
  show "log world0 = []" by (simp add: world0_def)
  show "\<forall>n\<in>set csv_names. disk_ok env_ok n" by (simp add: env_ok_def)
  show "\<forall>n\<in>set csv_names. disk_ok env_down n" by (simp add: env_down_def)
  show "store_fails env_down" by (auto simp: env_down_def store_fails_def table_names_def)
  show "\<not> store_fails env_ok" by (simp add: env_ok_def store_fails_def)
qed

theorem store_failure_contained_witness:
  "exit_code (script mt0 default_config env_down world0) = 0 \<and>
   exit_code (script mt0 default_config env_ok world0) = 0 \<and>
   count_list (log (snd (script mt0 default_config env_down world0)))
     (Print ''Error connecting to PostgreSQL'') = 1 \<and>
   count_list (log (snd (script mt0 default_config env_ok world0)))
     (Print ''Error connecting to PostgreSQL'') = 0 \<and>
   last (log (snd (script mt0 default_config env_down world0))) =
     Print ''   You can import them manually into PostgreSQL'' \<and>
   last (log (snd (script mt0 default_config env_ok world0))) =
     Print ''   4. Build your dashboard!''"
  using store_failure_contained [OF world0_ready(1,2,5,3), of mt0]
    store_failure_contained [OF world0_ready(1,2,4,3), of mt0]
  by (simp add: world0_ready(6,7))

lemma split_at_sql:
  assumes "A @ evs = pre @ ToSql n # post" and "list_all (\<lambda>e. \<not> is_sql e) A"
  shows "set A \<subseteq> set pre" and "set post \<subseteq> set evs"
proof -
  from assms(1) obtain us where
    "(A = pre @ us \<and> us @ evs = ToSql n # post) \<or> (A @ us = pre \<and> evs = us @ ToSql n # post)"
    by (auto simp: append_eq_append_conv2)
  then have "set A \<subseteq> set pre \<and> set post \<subseteq> set evs"
  proof
    assume h: "A = pre @ us \<and> us @ evs = ToSql n # post"
    have "us = []"
    proof (cases us)
      case Nil
      then show ?thesis .
    next
      case (Cons u us')
      then have "u = ToSql n" using h by simp
      then have "ToSql n \<in> set A" using h Cons by simp
      then have "\<not> is_sql (ToSql n)" using assms(2) by (auto simp: list_all_iff)
      then show ?thesis by simp
    qed
    then show ?thesis using h by auto
  next
    assume "A @ us = pre \<and> evs = us @ ToSql n # post"
    then show ?thesis by auto
  qed
  then show "set A \<subseteq> set pre" and "set post \<subseteq> set evs" by simp_all
qed

lemma print_not_sql: "is_print e \<Longrightarrow> \<not> is_sql e"
  by (cases e) simp_all

lemma save_csv_env: "save_csv (ev\<lparr>engine_ok := b, db_ok := d\<rparr>) t = save_csv ev t"
proof -
  have "to_csv (ev\<lparr>engine_ok := b, db_ok := d\<rparr>) = to_csv ev"
    by (intro ext) (simp add: to_csv_def)
  then show ?thesis by (simp add: save_csv_def)
qed

lemma script_outcomes:
  fixes mt cfg ev w
  defines "fin \<equiv> snd (script mt cfg ev w)"
  shows "(\<exists>ps. log fin = log w @ ps \<and> list_all (\<lambda>e. \<not> is_sql e) ps \<and> store fin = store w \<and>
            (\<forall>b d. script mt cfg (ev\<lparr>engine_ok := b, db_ok := d\<rparr>) w = script mt cfg ev w)) \<or>
         (\<exists>t S E w1. generate cfg (snd (seed mt 42 w)) = (Inr (t, S, E), w1) \<and>
            (\<forall>n\<in>set csv_names. disk_ok ev n))"
proof -
  obtain r w1 where g: "generate cfg (snd (seed mt 42 w)) = (r, w1)"
    by (cases "generate cfg (snd (seed mt 42 w))")
  have "files w1 = files (snd (seed mt 42 w)) \<and> store w1 = store (snd (seed mt 42 w)) \<and>
      (\<exists>ps. log w1 = log (snd (seed mt 42 w)) @ ps \<and> list_all is_print ps)"
    using quiet_generate [of cfg] g unfolding quiet_def by blast
  then obtain ps where q: "files w1 = files w" "store w1 = store w" "log w1 = log w @ ps"
    "list_all is_print ps"
    by (auto simp: seed_def)
  have np: "list_all (\<lambda>e. \<not> is_sql e) ps"
    using q(4) by (auto simp: list_all_iff dest: print_not_sql)
  show ?thesis
  proof (cases r)
    case (Inl e)
    then have "script mt cfg ev' w = (Inl e, w1)" for ev'
      using g by (intro script_gen_fail) simp
    then show ?thesis using q np by (auto simp: fin_def)
  next
    case (Inr x)
    obtain t S E where x: "x = (t, S, E)" by (cases x)
    have g': "generate cfg (snd (seed mt 42 w)) = (Inr (t, S, E), w1)" using g Inr x by simp
    show ?thesis
    proof (cases "\<forall>n\<in>set csv_names. disk_ok ev n")
      case True
      then show ?thesis using g' by blast
    next
      case False
      obtain w' evs where s: "save_csv ev t w1 = (Inl OSError, w')" "store w' = store w1"
        "log w' = log w1 @ evs" "list_all (\<lambda>e. \<not> is_sql e) evs"
        using save_csv_fail [OF False] by blast
      have "script mt cfg ev' w = (Inl OSError, w')"
        if "save_csv ev' t = save_csv ev t" for ev'
        using s(1) that by (simp add: script_gen_ok [OF g'] seq_def bnd_def)
      then have a: "script mt cfg ev w = (Inl OSError, w')"
        and b: "script mt cfg (ev\<lparr>engine_ok := b, db_ok := d\<rparr>) w = (Inl OSError, w')" for b d
        by (simp_all add: save_csv_env)
      have "log w' = log w @ (ps @ evs)" "list_all (\<lambda>e. \<not> is_sql e) (ps @ evs)"
        using s q np by simp_all
      then show ?thesis using a b s(2) q(2) unfolding fin_def
        by (intro disjI1 exI [of _ "ps @ evs"]) simp
    qed
  qed
qed

text \<open>
  C8. In the log of a run every attempt on the store comes after the four files have been
  written, and no file is written from the first attempt on. For a table that the store
  already holds, the rows of the run are added after the rows it had. What the store does
  has no effect on the files: a run whose \<^verbatim>\<open>create_engine\<close> and \<^verbatim>\<open>to_sql\<close> calls behave
  in any other way leaves the same files, which are the four exported frames whenever the
  tables were generated and the disk accepted them.
\<close>

theorem export_before_store:
  assumes "log w = []"
  shows "(\<forall>pre n post. log (snd (script mt cfg ev w)) = pre @ ToSql n # post \<longrightarrow>
            (\<forall>f\<in>set csv_names. WriteCsv f \<in> set pre) \<and> (\<forall>f. WriteCsv f \<notin> set post)) \<and>
         (\<forall>n old. store w n = Some old \<longrightarrow>
            (\<exists>new. store (snd (script mt cfg ev w)) n = Some (old @ new))) \<and>
         (\<forall>b d. files (snd (script mt cfg (ev\<lparr>engine_ok := b, db_ok := d\<rparr>) w)) =
            files (snd (script mt cfg ev w))) \<and>
         (\<forall>t S E w1. generate cfg (snd (seed mt 42 w)) = (Inr (t, S, E), w1) \<and>
            (\<forall>n\<in>set csv_names. disk_ok ev n) \<longrightarrow>
            files (snd (script mt cfg ev w)) =
              (files w)(''users.csv'' \<mapsto> users_frame t, ''listings.csv'' \<mapsto> listings_frame t,
                 ''leads.csv'' \<mapsto> leads_frame t, ''transactions.csv'' \<mapsto> transactions_frame t))"
proof -
  have fr: "\<forall>t S E w1. generate cfg (snd (seed mt 42 w)) = (Inr (t, S, E), w1) \<and>
            (\<forall>n\<in>set csv_names. disk_ok ev n) \<longrightarrow>
            files (snd (script mt cfg ev w)) =
              (files w)(''users.csv'' \<mapsto> users_frame t, ''listings.csv'' \<mapsto> listings_frame t,
                 ''leads.csv'' \<mapsto> leads_frame t, ''transactions.csv'' \<mapsto> transactions_frame t)"
    using script_ok_files by blast
  from script_outcomes [of mt cfg ev w]
  show ?thesis
  proof
    assume "\<exists>ps. log (snd (script mt cfg ev w)) = log w @ ps \<and>
      list_all (\<lambda>e. \<not> is_sql e) ps \<and> store (snd (script mt cfg ev w)) = store w \<and>
      (\<forall>b d. script mt cfg (ev\<lparr>engine_ok := b, db_ok := d\<rparr>) w = script mt cfg ev w)"
    then obtain ps where l: "log (snd (script mt cfg ev w)) = ps"
      and n: "list_all (\<lambda>e. \<not> is_sql e) ps"
      and s: "store (snd (script mt cfg ev w)) = store w"
      and i: "\<forall>b d. script mt cfg (ev\<lparr>engine_ok := b, db_ok := d\<rparr>) w = script mt cfg ev w"
      using assms by auto
    have "ps \<noteq> pre @ ToSql k # post" for pre k post
    proof
      assume "ps = pre @ ToSql k # post"
      then have "ToSql k \<in> set ps" by simp
      then have "\<not> is_sql (ToSql k)" using n by (auto simp: list_all_iff)
      then show False by simp
    qed
    then show ?thesis using l s i fr by simp
  next
    assume "\<exists>t S E w1. generate cfg (snd (seed mt 42 w)) = (Inr (t, S, E), w1) \<and>
            (\<forall>n\<in>set csv_names. disk_ok ev n)"
    then obtain t S E w1 where g: "generate cfg (snd (seed mt 42 w)) = (Inr (t, S, E), w1)"
      and d: "\<forall>n\<in>set csv_names. disk_ok ev n" by blast
    let ?A = "[Print ''Starting Bayut Marketplace Data Generation'', Print (replicate 70 (CHR ''='')),
            Print ''STEP 1/4: Generating Users...'',
            PrintCount ''Generated users'' (int (length (users_df t))),
            Print ''STEP 2/4: Generating Listings...'',
            PrintCount ''Generated listings'' (int (length (listings_df t))),
            Print ''STEP 3/4: Generating Leads...'',
            PrintCount ''Generated leads'' (int (length (leads_df t))),
            Print ''STEP 4/4: Generating Transactions...'',
            PrintCount ''Generated transactions'' (int (length (transactions_df t))),
            Print ''Saving backup CSV files...'', WriteCsv ''users.csv'',
            WriteCsv ''listings.csv'', WriteCsv ''leads.csv'', WriteCsv ''transactions.csv'',
            Print ''CSV files saved successfully'',
            Print ''Connecting to PostgreSQL and loading data...'']"
    obtain evs where l: "log (snd (script mt cfg ev w)) = ?A @ evs"
      and c: "\<forall>f. WriteCsv f \<notin> set evs"
      using script_ok_log [OF g d] assms by auto
    have A: "list_all (\<lambda>e. \<not> is_sql e) ?A" by simp
    have csv: "\<forall>f\<in>set csv_names. WriteCsv f \<in> set ?A" by (simp add: csv_names_def)
    have 1: "(\<forall>f\<in>set csv_names. WriteCsv f \<in> set pre) \<and> (\<forall>f. WriteCsv f \<notin> set post)"
      if "log (snd (script mt cfg ev w)) = pre @ ToSql n # post" for pre n post
    proof -
      have e: "?A @ evs = pre @ ToSql n # post" using that l by simp
      have "set ?A \<subseteq> set pre" "set post \<subseteq> set evs"
        using split_at_sql [OF e A] by blast+
      then show ?thesis using csv c by blast
    qed
    have 2: "\<exists>new. store (snd (script mt cfg ev w)) n = Some (old @ new)"
      if "store w n = Some old" for n old
      using script_ok_store [OF g d that] .
    have d': "\<forall>n\<in>set csv_names. disk_ok (ev\<lparr>engine_ok := b, db_ok := k\<rparr>) n" for b k
      using d by simp
    have 3: "files (snd (script mt cfg (ev\<lparr>engine_ok := b, db_ok := k\<rparr>) w)) =
            files (snd (script mt cfg ev w))" for b k
      by (simp only: script_ok_files [OF g d] script_ok_files [OF g d'])
    show ?thesis using 1 2 3 fr by blast
  qed
qed

theorem export_before_store_witness:
  "log world0 = [] \<and>
   (\<exists>pre post. log (snd (script mt0 default_config env_down world0)) =
        pre @ ToSql ''users'' # post \<and>
      WriteCsv ''users.csv'' \<in> set pre \<and> WriteCsv ''listings.csv'' \<in> set pre \<and>
      WriteCsv ''leads.csv'' \<in> set pre \<and> WriteCsv ''transactions.csv'' \<in> set pre \<and>
      WriteCsv ''users.csv'' \<notin> set post) \<and>
   files (snd (script mt0 default_config env_ok world0)) =
     files (snd (script mt0 default_config env_down world0)) \<and>
   (\<exists>t. files (snd (script mt0 default_config env_down world0)) ''users.csv'' =
      Some (users_frame t))"
proof -
  obtain t S E w1 where
    g: "generate default_config (snd (seed mt0 42 world0)) = (Inr (t, S, E), w1)"
    using script_generates [OF world0_ready(1,2)] by blast
  have ed: "engine_ok env_down" "\<not> db_ok env_down ''users''"
    by (simp_all add: env_down_def)
  have "ToSql ''users'' \<in> set (log (snd (script mt0 default_config env_down world0)))"
    by (simp add: script_ok [OF g world0_ready(5)] load_paths ed)
  then obtain pre post where
    dec: "log (snd (script mt0 default_config env_down world0)) = pre @ ToSql ''users'' # post"
    by (auto dest: split_list)
  note t = export_before_store [OF world0_ready(3), of mt0 default_config env_down]
  have a: "(\<forall>f\<in>set csv_names. WriteCsv f \<in> set pre) \<and> (\<forall>f. WriteCsv f \<notin> set post)"
    using t dec by blast
  have e: "env_down\<lparr>engine_ok := True, db_ok := (\<lambda>n. True)\<rparr> = env_ok"
    by (simp add: env_down_def env_ok_def)
  have b: "files (snd (script mt0 default_config env_ok world0)) =
     files (snd (script mt0 default_config env_down world0))"
    using t e by metis
  have c: "files (snd (script mt0 default_config env_down world0)) ''users.csv'' =
      Some (users_frame t)"
    using t g world0_ready(5) by simp
  show ?thesis using dec a b c world0_ready(3) by (auto simp: csv_names_def)
qed

lemma table_lengths:
  assumes "generate cfg w = (Inr (t, S, E), w')"
  shows "length (users_df t) = nat (NUM_USERS cfg)"
    and "length (listings_df t) = nat (NUM_LISTINGS cfg)"
    and "length (leads_df t) = nat (NUM_LEADS cfg)"
    and "length (transactions_df t) = nat (NUM_TRANSACTIONS cfg)"
proof -
  have u: "map user_id (users_df t) = [1..NUM_USERS cfg]"
    using users_spec [OF assms] by (rule ids_of_loop) (rule gen_user_Inr(1))
  have d: "map lead_id (leads_df t) = [1..NUM_LEADS cfg]"
    using leads_spec [OF assms] by (rule ids_of_loop) (rule gen_lead_Inr(1))
  have x: "map transaction_id (transactions_df t) = [1..NUM_TRANSACTIONS cfg]"
    using transactions_spec [OF assms] by (rule ids_of_loop) (rule gen_transaction_Inr(1))
  show "length (users_df t) = nat (NUM_USERS cfg)" using upto_facts(3) [OF u] .
  show "length (listings_df t) = nat (NUM_LISTINGS cfg)"
    using upto_facts(3) [OF listing_ids [OF assms]] .
  show "length (leads_df t) = nat (NUM_LEADS cfg)" using upto_facts(3) [OF d] .
  show "length (transactions_df t) = nat (NUM_TRANSACTIONS cfg)" using upto_facts(3) [OF x] .
qed

lemma columns_of_rows:
  assumes "0 < length xs"
  shows "columns (DataFrame (map f xs)) = map fst (f (hd xs))"
  using assms by (cases xs) (simp_all add: DataFrame_def)

lemma csv_headers_of_run:
  assumes "valid_config cfg" and "1 \<le> NUM_LEADS cfg" and "1 \<le> NUM_TRANSACTIONS cfg"
    and "clock_ok w" and "\<forall>n\<in>set csv_names. disk_ok ev n"
  shows "\<exists>fu fl fd ft.
    files (snd (script mt cfg ev w)) ''users.csv'' = Some fu \<and>
    files (snd (script mt cfg ev w)) ''listings.csv'' = Some fl \<and>
    files (snd (script mt cfg ev w)) ''leads.csv'' = Some fd \<and>
    files (snd (script mt cfg ev w)) ''transactions.csv'' = Some ft \<and>
    columns fu = [''user_id'', ''signup_date'', ''emirate'', ''user_type''] \<and>
    columns fl = [''listing_id'', ''user_id'', ''category'', ''emirate'', ''price'',
                  ''created_date'', ''status''] \<and>
    columns fd = [''lead_id'', ''listing_id'', ''user_id'', ''lead_date''] \<and>
    columns ft = [''transaction_id'', ''user_id'', ''amount'', ''transaction_date'',
                  ''transaction_type'']"
proof -
  obtain t S E w1 where g: "generate cfg (snd (seed mt 42 w)) = (Inr (t, S, E), w1)"
    using script_generates [OF assms(1,4)] by blast
  have n: "0 < length (users_df t)" "0 < length (listings_df t)" "0 < length (leads_df t)"
    "0 < length (transactions_df t)"
    using table_lengths [OF g] assms(1,2,3) by (simp_all add: valid_config_def)
  have c: "columns (users_frame t) = [''user_id'', ''signup_date'', ''emirate'', ''user_type'']"
    "columns (listings_frame t) = [''listing_id'', ''user_id'', ''category'', ''emirate'',
       ''price'', ''created_date'', ''status'']"
    "columns (leads_frame t) = [''lead_id'', ''listing_id'', ''user_id'', ''lead_date'']"
    "columns (transactions_frame t) = [''transaction_id'', ''user_id'', ''amount'',
       ''transaction_date'', ''transaction_type'']"
    using n
    by (simp_all add: users_frame_def listings_frame_def leads_frame_def transactions_frame_def
        columns_of_rows user_dict_def listing_dict_def lead_dict_def transaction_dict_def)
  show ?thesis
    using c by (simp add: script_ok_files [OF g assms(5)])
qed

text \<open>
  C7, as amended. When the tables are generated (each with at least one row) and the disk
  accepts the files, the run leaves the four files \<^verbatim>\<open>users.csv\<close>, \<^verbatim>\<open>listings.csv\<close>,
  \<^verbatim>\<open>leads.csv\<close> and \<^verbatim>\<open>transactions.csv\<close>, and the header of each is the list of keys of
  the table's row dictionaries, in the order the script writes them. Each header has as
  many columns as the entity has attributes in section 3 of the specification; the names
  are the script's (\<^verbatim>\<open>user_id\<close>, \<^verbatim>\<open>emirate\<close>, \<^verbatim>\<open>user_type\<close>, \<^verbatim>\<open>transaction_type\<close>, ...),
  not the specification's (\<^verbatim>\<open>id\<close>, \<^verbatim>\<open>region\<close>, \<^verbatim>\<open>role\<close>, \<^verbatim>\<open>kind\<close>, ...).
\<close>

theorem csv_headers_are_dict_keys:
  assumes "valid_config cfg" and "1 \<le> NUM_LEADS cfg" and "1 \<le> NUM_TRANSACTIONS cfg"
    and "clock_ok w" and "\<forall>n\<in>set csv_names. disk_ok ev n"
  shows "\<exists>fu fl fd ft.
    files (snd (script mt cfg ev w)) ''users.csv'' = Some fu \<and>
    files (snd (script mt cfg ev w)) ''listings.csv'' = Some fl \<and>
    files (snd (script mt cfg ev w)) ''leads.csv'' = Some fd \<and>
    files (snd (script mt cfg ev w)) ''transactions.csv'' = Some ft \<and>
    columns fu = [''user_id'', ''signup_date'', ''emirate'', ''user_type''] \<and>
    columns fl = [''listing_id'', ''user_id'', ''category'', ''emirate'', ''price'',
                  ''created_date'', ''status''] \<and>
    columns fd = [''lead_id'', ''listing_id'', ''user_id'', ''lead_date''] \<and>
    columns ft = [''transaction_id'', ''user_id'', ''amount'', ''transaction_date'',
                  ''transaction_type''] \<and>
    length (columns fu) = length spec_user_attributes \<and>
    length (columns fl) = length spec_listing_attributes \<and>
    length (columns fd) = length spec_lead_attributes \<and>
    length (columns ft) = length spec_transaction_attributes"
proof -
  obtain fu fl fd ft where
    f: "files (snd (script mt cfg ev w)) ''users.csv'' = Some fu"
      "files (snd (script mt cfg ev w)) ''listings.csv'' = Some fl"
      "files (snd (script mt cfg ev w)) ''leads.csv'' = Some fd"
      "files (snd (script mt cfg ev w)) ''transactions.csv'' = Some ft"
    and c: "columns fu = [''user_id'', ''signup_date'', ''emirate'', ''user_type'']"
      "columns fl = [''listing_id'', ''user_id'', ''category'', ''emirate'', ''price'',
                  ''created_date'', ''status'']"
      "columns fd = [''lead_id'', ''listing_id'', ''user_id'', ''lead_date'']"
      "columns ft = [''transaction_id'', ''user_id'', ''amount'', ''transaction_date'',
                  ''transaction_type'']"
    using csv_headers_of_run [OF assms] by blast
  have "length (columns fu) = length spec_user_attributes"
    "length (columns fl) = length spec_listing_attributes"
    "length (columns fd) = length spec_lead_attributes"
    "length (columns ft) = length spec_transaction_attributes"
    by (simp_all add: c spec_user_attributes_def spec_listing_attributes_def
        spec_lead_attributes_def spec_transaction_attributes_def)
  then show ?thesis using f c by blast
qed

lemma default_counts: "1 \<le> NUM_LEADS default_config" "1 \<le> NUM_TRANSACTIONS default_config"
  by (simp_all add: default_config_def)

theorem csv_headers_are_dict_keys_witness:
  "\<exists>fu fl fd ft.
    files (snd (script mt0 default_config env_ok world0)) ''users.csv'' = Some fu \<and>
    files (snd (script mt0 default_config env_ok world0)) ''listings.csv'' = Some fl \<and>
    files (snd (script mt0 default_config env_ok world0)) ''leads.csv'' = Some fd \<and>
    files (snd (script mt0 default_config env_ok world0)) ''transactions.csv'' = Some ft \<and>
    columns fu = [''user_id'', ''signup_date'', ''emirate'', ''user_type''] \<and>
    columns fl = [''listing_id'', ''user_id'', ''category'', ''emirate'', ''price'',
                  ''created_date'', ''status''] \<and>
    columns fd = [''lead_id'', ''listing_id'', ''user_id'', ''lead_date''] \<and>
    columns ft = [''transaction_id'', ''user_id'', ''amount'', ''transaction_date'',
                  ''transaction_type''] \<and>
    length (columns fu) = 4 \<and> length (columns fl) = 7 \<and>
    length (columns fd) = 4 \<and> length (columns ft) = 5"
proof -
  obtain fu fl fd ft where
    f: "files (snd (script mt0 default_config env_ok world0)) ''users.csv'' = Some fu"
      "files (snd (script mt0 default_config env_ok world0)) ''listings.csv'' = Some fl"
      "files (snd (script mt0 default_config env_ok world0)) ''leads.csv'' = Some fd"
      "files (snd (script mt0 default_config env_ok world0)) ''transactions.csv'' = Some ft"
    and c: "columns fu = [''user_id'', ''signup_date'', ''emirate'', ''user_type'']"
      "columns fl = [''listing_id'', ''user_id'', ''category'', ''emirate'', ''price'',
                  ''created_date'', ''status'']"
      "columns fd = [''lead_id'', ''listing_id'', ''user_id'', ''lead_date'']"
      "columns ft = [''transaction_id'', ''user_id'', ''amount'', ''transaction_date'',
                  ''transaction_type'']"
    using csv_headers_are_dict_keys [OF world0_ready(1) default_counts world0_ready(2,4), of mt0]
    by blast
  have "length (columns fu) = 4" "length (columns fl) = 7" "length (columns fd) = 4"
    "length (columns ft) = 5"
    by (simp_all add: c)
  then show ?thesis using f c by blast
qed

text \<open>
  The claim as the specification states it fails: the header of \<^verbatim>\<open>users.csv\<close> is not the
  list of attribute names that section 3 gives for a User.
\<close>

theorem csv_header_spec_names_counterexample:
  "\<exists>fu. files (snd (script mt0 default_config env_ok world0)) ''users.csv'' = Some fu \<and>
     columns fu = [''user_id'', ''signup_date'', ''emirate'', ''user_type''] \<and>
     columns fu \<noteq> spec_user_attributes"
proof -
  obtain fu where "files (snd (script mt0 default_config env_ok world0)) ''users.csv'' = Some fu"
    and "columns fu = [''user_id'', ''signup_date'', ''emirate'', ''user_type'']"
    using csv_headers_of_run [OF world0_ready(1) default_counts world0_ready(2,4), of mt0]
    by blast
  then show ?thesis by (auto simp: spec_user_attributes_def)
qed

section \<open>Runs of the script with one seed\<close>

lemma date_between_value:
  assumes "date_between s e g = Inr (d, g')"
  shows "d = date_of s + feed g (pos g) mod (date_of e - date_of s + 1)"
  using assms by (auto simp: date_between_def draw_def Let_def split: if_splits)

lemma first_signup:
  assumes "generate cfg w = (Inr (t, S, E), w')" and "1 \<le> NUM_USERS cfg"
  shows "\<exists>u us. users_df t = u # us \<and>
           signup_date u = date_of S + feed (fk w) (pos (fk w)) mod (date_of E - date_of S + 1)"
proof -
  let ?v = "w\<lparr>clk := clk w\<lparr>pos := Suc (Suc (pos (clk w)))\<rparr>,
              log := log w @ [Print ''Starting Bayut Marketplace Data Generation'',
                Print (replicate 70 (CHR ''='')), Print ''STEP 1/4: Generating Users...'']\<rparr>"
  obtain v' where l: "for_loop (gen_user S E) [1..NUM_USERS cfg] [] ?v = (Inr (users_df t), v')"
    using generate_Inr(3) [OF assms(1)] by blast
  have "[1..NUM_USERS cfg] = 1 # [2..NUM_USERS cfg]"
    using assms(2) by (simp add: upto_rec1)
  then have "for_loop (gen_user S E) (1 # [2..NUM_USERS cfg]) [] ?v = (Inr (users_df t), v')"
    using l by simp
  then obtain u v1 where b: "gen_user S E 1 ?v = (Inr u, v1)"
    and r: "for_loop (gen_user S E) [2..NUM_USERS cfg] [u] v1 = (Inr (users_df t), v')"
    by (auto split: prod.splits sum.splits)
  obtain us where us: "users_df t = [u] @ us" using for_loop_produced [OF r] by blast
  obtain g where "date_between S E (fk ?v) = Inr (signup_date u, g)"
    using gen_user_Inr(6) [OF b] by blast
  then have "signup_date u = date_of S + feed (fk w) (pos (fk w)) mod (date_of E - date_of S + 1)"
    using date_between_value [of S E "fk ?v" "signup_date u" g] by simp
  then show ?thesis using us by simp
qed

lemma users_csv_first_row:
  assumes "valid_config cfg" and "clock_ok w" and "\<forall>n\<in>set csv_names. disk_ok ev n"
  shows "\<exists>fr r rs. files (snd (script mt cfg ev w)) ''users.csv'' = Some fr \<and>
           rows fr = r # rs \<and>
           r ! 1 = CDate (date_of (feed (clk w) (pos (clk w)) - timedelta 730) +
                     feed (fk w) (pos (fk w)) mod
                       (date_of (feed (clk w) (Suc (pos (clk w)))) -
                        date_of (feed (clk w) (pos (clk w)) - timedelta 730) + 1))"
proof -
  obtain t S E w1 where g: "generate cfg (snd (seed mt 42 w)) = (Inr (t, S, E), w1)"
    using script_generates [OF assms(1,2)] by blast
  have S: "S = feed (clk w) (pos (clk w)) - timedelta 730"
    and E: "E = feed (clk w) (Suc (pos (clk w)))"
    using generate_Inr(1,2) [OF g] by (simp_all add: seed_def)
  have "1 \<le> NUM_USERS cfg" using assms(1) by (simp add: valid_config_def)
  then obtain u us where u: "users_df t = u # us"
    and d: "signup_date u = date_of S + feed (fk w) (pos (fk w)) mod (date_of E - date_of S + 1)"
    using first_signup [OF g] by (auto simp: seed_def)
  have "rows (users_frame t) = map snd (user_dict u) # map (map snd) (map user_dict us)"
    by (simp add: users_frame_def DataFrame_def u)
  moreover have "map snd (user_dict u) ! 1 = CDate (signup_date u)"
    by (simp add: user_dict_def)
  ultimately show ?thesis
    unfolding S [symmetric] E [symmetric] d [symmetric]
    by (simp add: script_ok_files [OF g assms(3)])
qed

text \<open>
  C2. The comment next to \<^verbatim>\<open>random.seed(42)\<close> promises the same data on each run, but
  the tables are not a function of the seed and the configuration. The dates are drawn
  from a window that ends at \<^verbatim>\<open>datetime.now()\<close>, by Faker's own generator, which the
  script never seeds. Two runs with the seed 42, the default configuration and any
  generator \<open>mt\<close> behind \<^verbatim>\<open>random.seed\<close> write different \<^verbatim>\<open>users.csv\<close> files when the
  clock has moved on by 100000000 seconds, and also when the clock reads the same but
  Faker's generator starts from another state.
\<close>

theorem rerun_changes_users_csv:
  "files (snd (script mt default_config env_ok world0)) ''users.csv'' \<noteq>
   files (snd (script mt default_config env_ok
     (world0\<lparr>clk := \<lparr>feed = (\<lambda>i. 1862000000 + int i), pos = 0\<rparr>\<rparr>))) ''users.csv'' \<and>
   files (snd (script mt default_config env_ok world0)) ''users.csv'' \<noteq>
   files (snd (script mt default_config env_ok
     (world0\<lparr>fk := \<lparr>feed = (\<lambda>i. 17 * int i + 6), pos = 0\<rparr>\<rparr>))) ''users.csv''"
proof -
  let ?B = "world0\<lparr>clk := \<lparr>feed = (\<lambda>i. 1862000000 + int i), pos = 0\<rparr>\<rparr>"
  let ?C = "world0\<lparr>fk := \<lparr>feed = (\<lambda>i. 17 * int i + 6), pos = 0\<rparr>\<rparr>"
  have cB: "clock_ok ?B" and cC: "clock_ok ?C"
    by (simp_all add: clock_ok_def world0_def date_of_def timedelta_def)
  obtain fa ra rsa where a: "files (snd (script mt default_config env_ok world0)) ''users.csv'' =
      Some fa" "rows fa = ra # rsa" "ra ! 1 = CDate 19668"
    using users_csv_first_row [OF world0_ready(1,2,4), of mt]
    by (auto simp: world0_def date_of_def timedelta_def)
  obtain fb rb rsb where b: "files (snd (script mt default_config env_ok ?B)) ''users.csv'' =
      Some fb" "rows fb = rb # rsb" "rb ! 1 = CDate 20825"
    using users_csv_first_row [OF world0_ready(1) cB world0_ready(4), of mt]
    by (auto simp: world0_def date_of_def timedelta_def)
  obtain fc rc rsc where c: "files (snd (script mt default_config env_ok ?C)) ''users.csv'' =
      Some fc" "rows fc = rc # rsc" "rc ! 1 = CDate 19669"
    using users_csv_first_row [OF world0_ready(1) cC world0_ready(4), of mt]
    by (auto simp: world0_def date_of_def timedelta_def)
  have "fa \<noteq> fb" using a(2,3) b(2,3) by auto
  moreover have "fa \<noteq> fc" using a(2,3) c(2,3) by auto
  ultimately show ?thesis using a(1) b(1) c(1) by simp
qed

end
